theory Spec2Isabelle
  imports Complex_Main "HOL-Library.Word" "HOL-Library.Monad_Syntax"
begin

section \<open>Data model (types.ts)\<close>

text \<open>
  JavaScript numbers are modelled as real numbers: the model follows the arithmetic the
  source writes and leaves the infinities out. IEEE rounding is written out where it
  decides an integer result, namely for the duration of a buffer and for the frame count
  of the export (\<open>binary64\<close> below); elsewhere the arithmetic is exact. Decoded and
  rendered sample data is a list of reals per channel.
\<close>

text \<open>
  A JavaScript number is an IEEE 754 binary64 value, and every arithmetic operation
  returns the exact result rounded to the nearest such value, ties to the even
  significand. \<open>binary64 x\<close> is that rounding of the real \<open>x\<close>: with \<open>e\<close> the binary
  exponent of \<open>x\<close> (at least \<open>-1022\<close>, which covers the subnormal numbers), the
  representable values near \<open>x\<close> are the integer multiples of \<open>2 ^ (e - 52)\<close>. Overflow
  to infinity (from \<open>2 ^ 1024\<close> on) is left out.
\<close>

definition pow2 :: "int \<Rightarrow> real" where
  "pow2 i = (if 0 \<le> i then 2 ^ nat i else 1 / 2 ^ nat (- i))"

definition round_ties_even :: "real \<Rightarrow> int" where
  "round_ties_even x =
     (let f = \<lfloor>x\<rfloor>; r = x - real_of_int f
      in if r < 1 / 2 then f else if 1 / 2 < r then f + 1 else if even f then f else f + 1)"

definition binary64 :: "real \<Rightarrow> real" where
  "binary64 x =
     (if x = 0 then 0
      else (let e = max \<lfloor>log 2 \<bar>x\<bar>\<rfloor> (- 1022);
                ulp = pow2 (e - 52)
            in real_of_int (round_ties_even (x / ulp)) * ulp))"

text \<open>
  The host's \<^verbatim>\<open>AudioBuffer\<close>: a sample rate (the field \<^verbatim>\<open>sampleRate\<close>, here
  \<open>buffer_sampleRate\<close>) and one sample array per channel. Its
  \<^verbatim>\<open>length\<close> is the number of sample frames and its \<^verbatim>\<open>duration\<close> is the
  double \<open>length / sampleRate\<close>, a rounded quotient.
  \<^verbatim>\<open>getChannelData\<close> raises IndexSizeError for a channel
  the buffer does not have; the source only asks for channel 0, and for channel 1 after
  testing \<^verbatim>\<open>numberOfChannels\<close>, so the model returns the empty array there.
\<close>

record AudioBuffer =
  buffer_sampleRate :: nat
  channelData :: "real list list"

definition numberOfChannels :: "AudioBuffer \<Rightarrow> nat" where
  "numberOfChannels buffer = length (channelData buffer)"

definition buffer_length :: "AudioBuffer \<Rightarrow> nat" where
  "buffer_length buffer = (case channelData buffer of [] \<Rightarrow> 0 | c # _ \<Rightarrow> length c)"

definition buffer_duration :: "AudioBuffer \<Rightarrow> real" where
  "buffer_duration buffer =
     binary64 (real (buffer_length buffer) / real (buffer_sampleRate buffer))"

definition getChannelData :: "AudioBuffer \<Rightarrow> nat \<Rightarrow> real list" where
  "getChannelData buffer channel =
     (if channel < numberOfChannels buffer then channelData buffer ! channel else [])"

text \<open>
  \<^verbatim>\<open>AudioTrack\<close>. The field \<open>track_file\<close> stands for the uploaded \<^verbatim>\<open>file\<close> by what the
  host's \<^verbatim>\<open>decodeAudioData\<close> yields for it (\<open>None\<close> when decoding rejects);
  \<open>audioBuffer\<close> is the optional export cache. The blob URL and the waveform widget
  have no part in the computations below and are left out. The field \<^verbatim>\<open>id\<close> is
  called \<open>track_id\<close>.
\<close>

record AudioTrack =
  track_id :: string
  name :: string
  track_file :: "AudioBuffer option"
  volume :: real
  isMuted :: bool
  isSolo :: bool
  duration :: real
  audioBuffer :: "AudioBuffer option"

text \<open>\<^verbatim>\<open>PlaybackState\<close>; its \<^verbatim>\<open>duration\<close> field is called \<open>total_duration\<close>.\<close>

record PlaybackState =
  isPlaying :: bool
  currentTime :: real
  total_duration :: real
  isExporting :: bool

section \<open>Session state and its handlers (App.tsx)\<close>

text \<open>
  The state of \<^verbatim>\<open>App\<close> that the handlers below read and write: the track list
  \<^verbatim>\<open>tracks\<close> (here \<open>st_tracks\<close>), the playback state \<^verbatim>\<open>playback\<close>
  (here \<open>st_playback\<close>) and the mutable cell \<^verbatim>\<open>maxDurationRef\<close>.
\<close>

record App =
  st_tracks :: "AudioTrack list"
  st_playback :: PlaybackState
  maxDurationRef :: real

definition App_init :: App where
  "App_init =
     \<lparr>st_tracks = [],
      st_playback = \<lparr>isPlaying = False, currentTime = 0, total_duration = 0, isExporting = False\<rparr>,
      maxDurationRef = 0\<rparr>"

text \<open>
  \<^verbatim>\<open>addFiles\<close>: one new track per file, appended. Every file comes with the fresh
  identifier \<^verbatim>\<open>uuidv4()\<close> draws for it and with its name.
\<close>

definition addFiles :: "(string \<times> string \<times> AudioBuffer option) list \<Rightarrow> App \<Rightarrow> App" where
  "addFiles files st =
     (let newTracks = map (\<lambda>(uuid, fname, f).
            \<lparr>track_id = uuid, name = fname, track_file = f, volume = 0.8, isMuted = False,
             isSolo = False, duration = 0, audioBuffer = None\<rparr>) files
      in st\<lparr>st_tracks := st_tracks st @ newTracks\<rparr>)"

definition handleVolumeChange :: "string \<Rightarrow> real \<Rightarrow> AudioTrack list \<Rightarrow> AudioTrack list" where
  "handleVolumeChange ident vol prev =
     map (\<lambda>t. if track_id t = ident then t\<lparr>volume := vol\<rparr> else t) prev"

definition handleMuteToggle :: "string \<Rightarrow> AudioTrack list \<Rightarrow> AudioTrack list" where
  "handleMuteToggle ident prev =
     map (\<lambda>t. if track_id t = ident then t\<lparr>isMuted := \<not> isMuted t\<rparr> else t) prev"

definition handleSoloToggle :: "string \<Rightarrow> AudioTrack list \<Rightarrow> AudioTrack list" where
  "handleSoloToggle ident prev =
     (case find (\<lambda>t. track_id t = ident) prev of
        None \<Rightarrow> prev
      | Some toggledTrack \<Rightarrow>
          (let newSoloState = (\<not> isSolo toggledTrack);
               updatedTracks =
                 map (\<lambda>t. if track_id t = ident then t\<lparr>isSolo := newSoloState\<rparr> else t) prev;
               isAnySolo = list_ex isSolo updatedTracks
           in map (\<lambda>t. if isAnySolo then t\<lparr>isMuted := \<not> isSolo t\<rparr>
                        else t\<lparr>isMuted := False\<rparr>) updatedTracks))"

definition handleRemoveTrack :: "string \<Rightarrow> App \<Rightarrow> App" where
  "handleRemoveTrack ident st = st\<lparr>st_tracks := filter (\<lambda>t. track_id t \<noteq> ident) (st_tracks st)\<rparr>"

text \<open>The Clear button: \<^verbatim>\<open>setTracks([])\<close>.\<close>

definition clearTracks :: "App \<Rightarrow> App" where
  "clearTracks st = st\<lparr>st_tracks := []\<rparr>"

text \<open>
  \<^verbatim>\<open>handleTrackReady\<close>. The function mapped over the track list has a side effect on
  the track it matches: when the buffer is longer than \<^verbatim>\<open>maxDurationRef\<close>, the cell
  and the playback duration are both set to the buffer's duration. The loop threads the
  cell and the playback state through the list.
\<close>

fun ready_loop ::
  "string \<Rightarrow> AudioBuffer \<Rightarrow> AudioTrack list \<Rightarrow> real \<times> PlaybackState \<Rightarrow>
   AudioTrack list \<times> real \<times> PlaybackState" where
  "ready_loop ident buffer [] (ref, p) = ([], ref, p)"
| "ready_loop ident buffer (t # ts) (ref, p) =
     (if track_id t \<noteq> ident then
        (let (ts', ref', p') = ready_loop ident buffer ts (ref, p) in (t # ts', ref', p'))
      else
        (let (ref1, p1) =
               (if buffer_duration buffer > ref
                then (buffer_duration buffer, p\<lparr>total_duration := buffer_duration buffer\<rparr>)
                else (ref, p));
             (ts', ref', p') = ready_loop ident buffer ts (ref1, p1)
         in (t\<lparr>audioBuffer := Some buffer, duration := buffer_duration buffer\<rparr> # ts',
             ref', p')))"

definition handleTrackReady :: "string \<Rightarrow> AudioBuffer \<Rightarrow> App \<Rightarrow> App" where
  "handleTrackReady ident buffer st =
     (let (ts', ref', p') = ready_loop ident buffer (st_tracks st) (maxDurationRef st, st_playback st)
      in \<lparr>st_tracks = ts', st_playback = p', maxDurationRef = ref'\<rparr>)"

section \<open>Level meter (MasterMeter.tsx)\<close>

text \<open>
  \<^verbatim>\<open>getRMS\<close>: the analyser fills a \<^verbatim>\<open>Uint8Array\<close> of
  \<^verbatim>\<open>frequencyBinCount\<close> bytes (128 for the \<^verbatim>\<open>fftSize\<close> of 256 the
  application sets), each byte is normalised by \<open>(byte - 128) / 128\<close>, and the result
  is the square root of the mean square. The window is never empty.
\<close>

definition getRMS :: "8 word list \<Rightarrow> real" where
  "getRMS dataArray =
     (let bufferLength = length dataArray;
          sum = fold (\<lambda>b sum. let x = (real (unat b) - 128) / 128 in sum + x * x) dataArray 0
      in sqrt (sum / real bufferLength))"

text \<open>
  \<^verbatim>\<open>drawChannel\<close>, the part that updates the peak-hold value of one channel: the
  argument \<open>val\<close> is the RMS of the tick and \<open>peak\<close> the stored hold value
  (\<^verbatim>\<open>peakObj.current\<close>); the result is the new hold value. The bar is drawn at
  \<open>renderVal\<close>, four times the RMS and at most 1.
\<close>

definition drawChannel :: "real \<Rightarrow> real \<Rightarrow> real" where
  "drawChannel val peak =
     (let renderVal = min (val * 4) 1;
          peak1 = (if renderVal \<ge> peak then renderVal else peak - 0.005)
      in if peak1 < 0 then 0 else peak1)"

text \<open>The two hold values of \<^verbatim>\<open>peaksRef\<close>, both 0 when the component mounts.\<close>

record peaks =
  peak_l :: real
  peak_r :: real

definition peaks_init :: peaks where
  "peaks_init = \<lparr>peak_l = 0, peak_r = 0\<rparr>"

text \<open>One animation tick of \<^verbatim>\<open>draw\<close>, as far as the hold values go.\<close>

definition draw :: "8 word list \<Rightarrow> 8 word list \<Rightarrow> peaks \<Rightarrow> peaks" where
  "draw dataL dataR p =
     (let valL = getRMS dataL; valR = getRMS dataR
      in \<lparr>peak_l = drawChannel valL (peak_l p), peak_r = drawChannel valR (peak_r p)\<rparr>)"

text \<open>
  A run of ticks on one channel: one analyser window per tick, the hold value threaded
  through \<^verbatim>\<open>drawChannel\<close> as \<^verbatim>\<open>requestAnimationFrame\<close> does.
\<close>

fun run_channel :: "8 word list list \<Rightarrow> real \<Rightarrow> real" where
  "run_channel [] peak = peak"
| "run_channel (dataArray # windows) peak =
     run_channel windows (drawChannel (getRMS dataArray) peak)"

section \<open>Waveform peak summary (GlobalTimeline.tsx)\<close>

text \<open>
  The inner loop of \<^verbatim>\<open>generatePeaks\<close>: ten probes inside the window that starts at
  \<open>start\<close>, the largest magnitude found is the bucket's peak (the variable
  \<^verbatim>\<open>max\<close> of the source is \<open>mx\<close> here).
\<close>

definition bucket_peak :: "real list \<Rightarrow> nat \<Rightarrow> nat \<Rightarrow> real" where
  "bucket_peak data start step =
     fold (\<lambda>j mx.
             let idx = start + nat \<lfloor>(real j / 10) * real step\<rfloor>
             in if idx < length data
                then (let val = \<bar>data ! idx\<bar> in if val > mx then val else mx)
                else mx)
       [0..<10] 0"

text \<open>
  The body of \<^verbatim>\<open>tracks.forEach\<close>: a track without a cached buffer, or a muted one,
  leaves the buckets alone; any other track raises its first \<open>activePixels\<close> buckets.
  Reading a \<^verbatim>\<open>Float32Array\<close> outside its range gives \<^verbatim>\<open>undefined\<close> and
  writing there is ignored, so an index outside the array changes nothing.
\<close>

definition track_peaks :: "nat \<Rightarrow> real \<Rightarrow> AudioTrack \<Rightarrow> real list \<Rightarrow> real list" where
  "track_peaks width maxDur track peaks =
     (case audioBuffer track of
        None \<Rightarrow> peaks
      | Some buffer \<Rightarrow>
          if isMuted track then peaks
          else
            (let data = getChannelData buffer 0;
                 step = nat \<lceil>real (length data) / real width\<rceil>;
                 trackDurationRatio = duration track / maxDur;
                 activePixels = nat \<lfloor>real width * trackDurationRatio\<rfloor>
             in fold (\<lambda>i peaks.
                        if i < length peaks
                        then peaks[i := max (peaks ! i)
                                            (bucket_peak data (i * step) step * volume track)]
                        else peaks)
                  [0..<activePixels] peaks))"

text \<open>
  \<^verbatim>\<open>generatePeaks\<close>, for a container of \<open>clientWidth\<close> pixels (1000 buckets when
  the width is 0 or unknown). The result is \<open>None\<close> when the function returns without
  calling \<^verbatim>\<open>setMergedPeaks\<close>, which it does when the longest duration is 0. For an
  empty track list \<^verbatim>\<open>Math.max()\<close> is \<open>-Infinity\<close>, which is not 0.
\<close>

definition generatePeaks :: "nat \<Rightarrow> AudioTrack list \<Rightarrow> real list option" where
  "generatePeaks clientWidth tracks =
     (let width = (if clientWidth = 0 then 1000 else clientWidth);
          peaks = replicate width 0
      in if tracks = [] then Some peaks
         else
           (let maxDur = Max (set (map duration tracks))
            in if maxDur = 0 then None
               else Some (fold (track_peaks width maxDur) tracks peaks)))"

text \<open>
  The effect that owns \<^verbatim>\<open>mergedPeaks\<close>: an empty track list clears the summary, and
  otherwise \<^verbatim>\<open>generatePeaks\<close> replaces it or leaves it as it was.
\<close>

definition peaks_effect :: "nat \<Rightarrow> AudioTrack list \<Rightarrow> real list option \<Rightarrow> real list option" where
  "peaks_effect clientWidth tracks mergedPeaks =
     (if tracks = [] then None
      else (case generatePeaks clientWidth tracks of
              None \<Rightarrow> mergedPeaks
            | Some peaks \<Rightarrow> Some peaks))"

section \<open>Codec layer (audioService.ts)\<close>

subsection \<open>Typed arrays and the DataView\<close>

text \<open>
  An element of a \<^verbatim>\<open>Float32Array\<close> read outside the array is \<^verbatim>\<open>undefined\<close>,
  which arithmetic and a store into a \<^verbatim>\<open>Float32Array\<close> turn into NaN. The codec
  is the one place of the source where this can happen, so its arrays hold a number or
  NaN.
\<close>

datatype f32 = NaN | Num real

definition f32_read :: "real list \<Rightarrow> nat \<Rightarrow> f32" where
  "f32_read input i = (if i < length input then Num (input ! i) else NaN)"

definition f32_write :: "f32 list \<Rightarrow> nat \<Rightarrow> f32 \<Rightarrow> f32 list" where
  "f32_write result i v = (if i < length result then result[i := v] else result)"

text \<open>\<^verbatim>\<open>Math.max(-1, Math.min(1, x))\<close>; NaN stays NaN.\<close>

definition clamp_unit :: "f32 \<Rightarrow> f32" where
  "clamp_unit x = (case x of NaN \<Rightarrow> NaN | Num v \<Rightarrow> Num (max (-1) (min 1 v)))"

text \<open>\<^verbatim>\<open>s < 0 ? s * 0x8000 : s * 0x7FFF\<close>; the comparison is false for NaN.\<close>

definition scale_pcm :: "f32 \<Rightarrow> f32" where
  "scale_pcm s = (case s of NaN \<Rightarrow> NaN | Num v \<Rightarrow> Num (if v < 0 then v * 32768 else v * 32767))"

text \<open>
  The conversion \<^verbatim>\<open>ToInt16\<close> that \<^verbatim>\<open>DataView.setInt16\<close> and a store into an
  \<^verbatim>\<open>Int16Array\<close> apply to a number: NaN becomes 0, any other number is truncated
  towards zero and reduced modulo \<open>2 ^ 16\<close>.
\<close>

definition ToInt16 :: "f32 \<Rightarrow> 16 word" where
  "ToInt16 x = (case x of NaN \<Rightarrow> 0 | Num v \<Rightarrow> word_of_int (if v < 0 then \<lceil>v\<rceil> else \<lfloor>v\<rfloor>))"

text \<open>
  A \<^verbatim>\<open>DataView\<close> over an \<^verbatim>\<open>ArrayBuffer\<close> is a list of bytes. A store checks
  its range first and raises RangeError (\<open>None\<close>) when it does not fit; the stores of
  the source all pass \<^verbatim>\<open>true\<close> for little-endian, lowest byte first.
\<close>

type_synonym DataView = "8 word list"

definition store_bytes :: "DataView \<Rightarrow> nat \<Rightarrow> 8 word list \<Rightarrow> DataView option" where
  "store_bytes view byteOffset bs =
     (if byteOffset + length bs \<le> length view
      then Some (take byteOffset view @ bs @ drop (byteOffset + length bs) view)
      else None)"

definition bytes16 :: "16 word \<Rightarrow> 8 word list" where
  "bytes16 w = [ucast w, ucast (drop_bit 8 w)]"

definition bytes32 :: "32 word \<Rightarrow> 8 word list" where
  "bytes32 w = [ucast w, ucast (drop_bit 8 w), ucast (drop_bit 16 w), ucast (drop_bit 24 w)]"

definition setUint8 :: "DataView \<Rightarrow> nat \<Rightarrow> nat \<Rightarrow> DataView option" where
  "setUint8 view byteOffset v = store_bytes view byteOffset [word_of_nat v]"

definition setUint16 :: "DataView \<Rightarrow> nat \<Rightarrow> nat \<Rightarrow> DataView option" where
  "setUint16 view byteOffset v = store_bytes view byteOffset (bytes16 (word_of_nat v))"

definition setUint32 :: "DataView \<Rightarrow> nat \<Rightarrow> nat \<Rightarrow> DataView option" where
  "setUint32 view byteOffset v = store_bytes view byteOffset (bytes32 (word_of_nat v))"

definition setInt16 :: "DataView \<Rightarrow> nat \<Rightarrow> f32 \<Rightarrow> DataView option" where
  "setInt16 view byteOffset v = store_bytes view byteOffset (bytes16 (ToInt16 v))"

text \<open>
  \<^verbatim>\<open>DataView.setFloat32\<close> stores the IEEE 754 binary32 encoding of its argument.
  The encoding is the host's; the model takes it as the parameter \<open>float32\<close>.
\<close>

definition setFloat32 :: "(f32 \<Rightarrow> 32 word) \<Rightarrow> DataView \<Rightarrow> nat \<Rightarrow> f32 \<Rightarrow> DataView option" where
  "setFloat32 float32 view byteOffset v = store_bytes view byteOffset (bytes32 (float32 v))"

subsection \<open>The lossless encoder\<close>

text \<open>
  \<^verbatim>\<open>interleave\<close>: the loop writes two elements per round, one from each input at
  \<open>inputIndex\<close>, until \<open>index\<close> reaches the sum of the two lengths.
\<close>

function interleave_loop ::
  "real list \<Rightarrow> real list \<Rightarrow> nat \<Rightarrow> f32 list \<Rightarrow> nat \<Rightarrow> nat \<Rightarrow> f32 list" where
  "interleave_loop inputL inputR len result index inputIndex =
     (if index < len
      then interleave_loop inputL inputR len
             (f32_write (f32_write result index (f32_read inputL inputIndex))
                (index + 1) (f32_read inputR inputIndex))
             (index + 2) (inputIndex + 1)
      else result)"
  by pat_completeness auto
termination
  by (relation "measure (\<lambda>(inputL, inputR, len, result, index, inputIndex). len - index)") auto

declare interleave_loop.simps [simp del]

definition interleave :: "real list \<Rightarrow> real list \<Rightarrow> f32 list" where
  "interleave inputL inputR =
     (let len = length inputL + length inputR;
          result = replicate len (Num 0)
      in interleave_loop inputL inputR len result 0 0)"

text \<open>\<^verbatim>\<open>writeString\<close>: one \<^verbatim>\<open>setUint8\<close> per character, at rising offsets.\<close>

fun writeString :: "DataView \<Rightarrow> nat \<Rightarrow> string \<Rightarrow> DataView option" where
  "writeString view offset [] = Some view"
| "writeString view offset (c # cs) =
     do { view' \<leftarrow> setUint8 view offset (of_char c); writeString view' (offset + 1) cs }"

text \<open>\<^verbatim>\<open>floatTo16BitPCM\<close>: one \<^verbatim>\<open>setInt16\<close> per sample, the offset rising by 2.\<close>

fun floatTo16BitPCM :: "DataView \<Rightarrow> nat \<Rightarrow> f32 list \<Rightarrow> DataView option" where
  "floatTo16BitPCM output offset [] = Some output"
| "floatTo16BitPCM output offset (x # input) =
     do { let s = clamp_unit x;
          output' \<leftarrow> setInt16 output offset (scale_pcm s);
          floatTo16BitPCM output' (offset + 2) input }"

text \<open>\<^verbatim>\<open>writeFloat32\<close>: one \<^verbatim>\<open>setFloat32\<close> per sample, the offset rising by 4.\<close>

fun writeFloat32 :: "(f32 \<Rightarrow> 32 word) \<Rightarrow> DataView \<Rightarrow> nat \<Rightarrow> f32 list \<Rightarrow> DataView option" where
  "writeFloat32 float32 output offset [] = Some output"
| "writeFloat32 float32 output offset (x # input) =
     do { output' \<leftarrow> setFloat32 float32 output offset x;
          writeFloat32 float32 output' (offset + 4) input }"

text \<open>
  A \<^verbatim>\<open>Blob\<close>: its bytes and its \<^verbatim>\<open>type\<close>, here \<open>mime\<close>.
\<close>

record Blob =
  bytes :: "8 word list"
  mime :: string

text \<open>
  \<^verbatim>\<open>encodeWAV\<close>. The callers pass a bit depth of 16 or 32, so
  \<^verbatim>\<open>bitDepth / 8\<close> is a whole number of bytes. A new \<^verbatim>\<open>ArrayBuffer\<close> is
  filled with zeros.
\<close>

definition encodeWAV ::
  "(f32 \<Rightarrow> 32 word) \<Rightarrow> f32 list \<Rightarrow> nat \<Rightarrow> nat \<Rightarrow> nat \<Rightarrow> nat \<Rightarrow> Blob option" where
  "encodeWAV float32 samples fmt sampleRate numChannels bitDepth =
     (let bytesPerSample = bitDepth div 8;
          blockAlign = numChannels * bytesPerSample;
          buffer = replicate (44 + length samples * bytesPerSample) 0
      in do {
        view \<leftarrow> writeString buffer 0 ''RIFF'';
        view \<leftarrow> setUint32 view 4 (36 + length samples * bytesPerSample);
        view \<leftarrow> writeString view 8 ''WAVE'';
        view \<leftarrow> writeString view 12 ''fmt '';
        view \<leftarrow> setUint32 view 16 16;
        view \<leftarrow> setUint16 view 20 fmt;
        view \<leftarrow> setUint16 view 22 numChannels;
        view \<leftarrow> setUint32 view 24 sampleRate;
        view \<leftarrow> setUint32 view 28 (sampleRate * blockAlign);
        view \<leftarrow> setUint16 view 32 blockAlign;
        view \<leftarrow> setUint16 view 34 bitDepth;
        view \<leftarrow> writeString view 36 ''data'';
        view \<leftarrow> setUint32 view 40 (length samples * bytesPerSample);
        view \<leftarrow> (if fmt = 1 then floatTo16BitPCM view 44 samples
                 else writeFloat32 float32 view 44 samples);
        Some \<lparr>bytes = view, mime = ''audio/wav''\<rparr>
      })"

text \<open>
  \<^verbatim>\<open>audioBufferToWav\<close>; the argument \<open>opt_float32\<close> is \<^verbatim>\<open>opt?.float32\<close>.
\<close>

definition audioBufferToWav :: "(f32 \<Rightarrow> 32 word) \<Rightarrow> AudioBuffer \<Rightarrow> bool \<Rightarrow> Blob option" where
  "audioBufferToWav float32 buffer opt_float32 =
     (let numChannels = numberOfChannels buffer;
          sampleRate = buffer_sampleRate buffer;
          fmt = (if opt_float32 then 3 else 1);
          bitDepth = (if fmt = 3 then 32 else 16);
          result = (if numChannels = 2
                    then interleave (getChannelData buffer 0) (getChannelData buffer 1)
                    else map Num (getChannelData buffer 0))
      in encodeWAV float32 result fmt sampleRate numChannels bitDepth)"

subsection \<open>The lossy encoder\<close>

text \<open>
  The MP3 encoder is the library lamejs, loaded inside the worker. The model takes the
  library as a parameter: the constructor, \<^verbatim>\<open>encodeBuffer\<close> and \<^verbatim>\<open>flush\<close> over
  an encoder state \<open>'s\<close>, each \<open>None\<close> when it throws.
\<close>

record 's lamejs =
  Mp3Encoder :: "nat \<Rightarrow> nat \<Rightarrow> nat \<Rightarrow> 's option"
  encodeBuffer :: "'s \<Rightarrow> 16 word list \<Rightarrow> 16 word list \<Rightarrow> ('s \<times> 8 word list) option"
  flush :: "'s \<Rightarrow> 8 word list option"

datatype error = NoActiveTracks | DecodeFailed | RangeError | LameNotLoaded | WorkerException

text \<open>
  The conversion loop of the worker: both \<^verbatim>\<open>Int16Array\<close>s have the length of
  \<^verbatim>\<open>samplesL\<close>; the right value is that of \<^verbatim>\<open>samplesR\<close> when the message
  carries one and the left value otherwise.
\<close>

definition worker_convert :: "real list \<Rightarrow> real list option \<Rightarrow> 16 word list \<times> 16 word list" where
  "worker_convert samplesL samplesR =
     (let len = length samplesL
      in (map (\<lambda>i. let valL = clamp_unit (f32_read samplesL i)
                    in ToInt16 (scale_pcm valL)) [0..<len],
          map (\<lambda>i. let valL = clamp_unit (f32_read samplesL i);
                        valR = (case samplesR of
                                  Some sR \<Rightarrow> clamp_unit (f32_read sR i)
                                | None \<Rightarrow> valL)
                    in ToInt16 (scale_pcm valR)) [0..<len]))"

text \<open>
  The encode loop of the worker: blocks of \<open>sampleBlockSize = 1152\<close> samples, each
  non-empty output appended to \<^verbatim>\<open>mp3Data\<close>.
\<close>

function encode_loop ::
  "'s lamejs \<Rightarrow> 's \<Rightarrow> 16 word list \<Rightarrow> 16 word list \<Rightarrow> nat \<Rightarrow> 8 word list list \<Rightarrow>
   ('s \<times> 8 word list list) option" where
  "encode_loop lib mp3encoder samplesL_int16 samplesR_int16 i mp3Data =
     (if i < length samplesL_int16
      then (let chunkL = take 1152 (drop i samplesL_int16);
                chunkR = take 1152 (drop i samplesR_int16)
            in case encodeBuffer lib mp3encoder chunkL chunkR of
                 None \<Rightarrow> None
               | Some (mp3encoder', mp3buf) \<Rightarrow>
                   encode_loop lib mp3encoder' samplesL_int16 samplesR_int16 (i + 1152)
                     (if length mp3buf > 0 then mp3Data @ [mp3buf] else mp3Data))
      else Some (mp3encoder, mp3Data))"
  by pat_completeness auto
termination
  by (relation "measure (\<lambda>(lib, e, sl, sr, i, d). length sl - i)") auto

declare encode_loop.simps [simp del]

text \<open>
  \<^verbatim>\<open>self.onmessage\<close> of the worker; \<open>lib\<close> is \<open>None\<close> when lamejs did not load.
  Every exception inside the \<^verbatim>\<open>try\<close> block is posted back as an error.
\<close>

definition worker_onmessage ::
  "'s lamejs option \<Rightarrow> nat \<Rightarrow> nat \<Rightarrow> real list \<Rightarrow> real list option \<Rightarrow> error + Blob" where
  "worker_onmessage lib channels sampleRate samplesL samplesR =
     (case lib of
        None \<Rightarrow> Inl LameNotLoaded
      | Some lame \<Rightarrow>
          (case Mp3Encoder lame channels sampleRate 320 of
             None \<Rightarrow> Inl WorkerException
           | Some mp3encoder \<Rightarrow>
               (let (samplesL_int16, samplesR_int16) = worker_convert samplesL samplesR
                in case encode_loop lame mp3encoder samplesL_int16 samplesR_int16 0 [] of
                     None \<Rightarrow> Inl WorkerException
                   | Some (mp3encoder', mp3Data) \<Rightarrow>
                       (case flush lame mp3encoder' of
                          None \<Rightarrow> Inl WorkerException
                        | Some mp3buf \<Rightarrow>
                            Inr \<lparr>bytes = concat (if length mp3buf > 0 then mp3Data @ [mp3buf]
                                                  else mp3Data),
                                 mime = ''audio/mp3''\<rparr>))))"

text \<open>
  \<^verbatim>\<open>audioBufferToMp3\<close>: the message for the worker carries the left channel and
  either the second channel or, for a mono buffer, a copy of the left one.
\<close>

definition mp3_message :: "AudioBuffer \<Rightarrow> nat \<times> nat \<times> real list \<times> real list" where
  "mp3_message buffer =
     (let channels = numberOfChannels buffer;
          sampleRate = buffer_sampleRate buffer;
          samplesL = getChannelData buffer 0;
          samplesR = (if channels > 1 then getChannelData buffer 1 else samplesL)
      in (channels, sampleRate, samplesL, samplesR))"

definition audioBufferToMp3 :: "'s lamejs option \<Rightarrow> AudioBuffer \<Rightarrow> error + Blob" where
  "audioBufferToMp3 lib buffer =
     (let (channels, sampleRate, samplesL, samplesR) = mp3_message buffer
      in worker_onmessage lib channels sampleRate samplesL (Some samplesR))"

section \<open>Offline mixdown and export (audioService.ts)\<close>

datatype format = wav | mp3

text \<open>
  The effects of one export, in the order they happen: the temporary decoding context
  is opened, files without a cached buffer are decoded, the context is closed, the
  offline context renders a buffer of the given length, and the rendered buffer goes to
  an encoder.
\<close>

datatype event =
  ContextOpened | FileDecoded string | ContextClosed | Rendered nat | Encoded format

text \<open>
  Modelled from the spec: the rendering of the offline audio graph
  (\<^verbatim>\<open>OfflineAudioContext.startRendering\<close>) is the host's and not in the repository.
  After section 4.1 of the specification: the output has \<open>channels\<close> buffers of \<open>len\<close>
  samples; every source adds \<open>sample * gain\<close> at each index its buffer has and nothing
  beyond its end; the sum is multiplied by the master gain; nothing is clipped. A source
  with two channels feeds each output channel from the matching input channel, any other
  source feeds every output channel from its first channel. Sources are not resampled.
  The host refuses an offline context of length 0; the model renders the empty buffer
  there.
\<close>

definition source_sample :: "AudioBuffer \<Rightarrow> nat \<Rightarrow> nat \<Rightarrow> real" where
  "source_sample buffer channel n =
     (let input = (if numberOfChannels buffer = 2 then getChannelData buffer channel
                   else getChannelData buffer 0)
      in if n < length input then input ! n else 0)"

definition startRendering ::
  "nat \<Rightarrow> nat \<Rightarrow> nat \<Rightarrow> real \<Rightarrow> (AudioBuffer \<times> real) list \<Rightarrow> AudioBuffer" where
  "startRendering channels len sampleRate masterGain sources =
     \<lparr>buffer_sampleRate = sampleRate,
      channelData =
        map (\<lambda>channel.
               map (\<lambda>n. (\<Sum>(buffer, gain) \<leftarrow> sources. source_sample buffer channel n * gain)
                         * masterGain)
                 [0..<len])
          [0..<channels]\<rparr>"

text \<open>
  The loop of \<^verbatim>\<open>bounceTracks\<close> over the active tracks: the cached buffer is used
  when there is one, otherwise the file is decoded (a rejected decoding ends the export);
  \<open>maxDuration\<close> rises to the duration of every longer buffer, and the buffer is queued
  with the track's volume.
\<close>

fun load_buffers ::
  "AudioTrack list \<Rightarrow> real \<Rightarrow> (AudioBuffer \<times> real) list \<Rightarrow> event list \<Rightarrow>
   event list \<times> (error + real \<times> (AudioBuffer \<times> real) list)" where
  "load_buffers [] maxDuration buffers trace = (trace, Inr (maxDuration, buffers))"
| "load_buffers (track # activeTracks) maxDuration buffers trace =
     (case audioBuffer track of
        Some buffer \<Rightarrow>
          load_buffers activeTracks
            (if buffer_duration buffer > maxDuration then buffer_duration buffer else maxDuration)
            (buffers @ [(buffer, volume track)]) trace
      | None \<Rightarrow>
          (case track_file track of
             None \<Rightarrow> (trace, Inl DecodeFailed)
           | Some buffer \<Rightarrow>
               load_buffers activeTracks
                 (if buffer_duration buffer > maxDuration then buffer_duration buffer
                  else maxDuration)
                 (buffers @ [(buffer, volume track)])
                 (trace @ [FileDecoded (track_id track)])))"

text \<open>
  Steps 1 to 4 of \<^verbatim>\<open>bounceTracks\<close>: the active tracks, their buffers and the longest
  duration, the offline context of two channels and
  \<^verbatim>\<open>Math.ceil(maxDuration * sampleRate)\<close> frames at 44100 Hz, and the rendering. The
  product is a product of doubles, so it is rounded before the ceiling is taken: a buffer
  of 13 frames at 44100 Hz has the duration \<open>binary64 (13 / 44100)\<close>, the product rounds
  to the double just above 13, and 14 frames are rendered.
\<close>

definition mixdown :: "AudioTrack list \<Rightarrow> real \<Rightarrow> event list \<times> (error + AudioBuffer)" where
  "mixdown tracks masterVolume =
     (let activeTracks = filter (\<lambda>t. \<not> isMuted t) tracks
      in if length activeTracks = 0 then ([], Inl NoActiveTracks)
         else
           (case load_buffers activeTracks 0 [] [ContextOpened] of
              (trace, Inl e) \<Rightarrow> (trace, Inl e)
            | (trace, Inr (maxDuration, buffers)) \<Rightarrow>
                (let sampleRate = 44100;
                     len = nat \<lceil>binary64 (maxDuration * real sampleRate)\<rceil>;
                     renderedBuffer = startRendering 2 len sampleRate masterVolume buffers
                 in (trace @ [ContextClosed, Rendered len], Inr renderedBuffer))))"

text \<open>
  \<^verbatim>\<open>bounceTracks\<close>: step 5 hands the rendered buffer to the encoder of the format. A
  RangeError of the lossless encoder and an error of the worker end the export.
\<close>

definition bounceTracks ::
  "'s lamejs option \<Rightarrow> (f32 \<Rightarrow> 32 word) \<Rightarrow> AudioTrack list \<Rightarrow> real \<Rightarrow> format \<Rightarrow>
   event list \<times> (error + Blob)" where
  "bounceTracks lib float32 tracks masterVolume format =
     (case mixdown tracks masterVolume of
        (trace, Inl e) \<Rightarrow> (trace, Inl e)
      | (trace, Inr renderedBuffer) \<Rightarrow>
          (if format = mp3
           then (trace @ [Encoded mp3], audioBufferToMp3 lib renderedBuffer)
           else (trace @ [Encoded wav],
                 case audioBufferToWav float32 renderedBuffer False of
                   None \<Rightarrow> Inl RangeError
                 | Some blob \<Rightarrow> Inr blob)))"

text \<open>
  The buffer an export uses for a track: the cached one, or else the decoded file.
\<close>

definition track_buffer :: "AudioTrack \<Rightarrow> AudioBuffer option" where
  "track_buffer t = (case audioBuffer t of Some buffer \<Rightarrow> Some buffer | None \<Rightarrow> track_file t)"

text \<open>
  An example session: a long and a short mono track at 44100 Hz, three and two samples
  long, the first one decoded and cached and the second one not yet.
\<close>

definition long_track :: AudioTrack where
  "long_track =
     \<lparr>track_id = ''a'', name = ''long'', track_file = None, volume = 1, isMuted = False,
      isSolo = False, duration = 3 / 44100,
      audioBuffer = Some \<lparr>buffer_sampleRate = 44100, channelData = [[1/2, -1/2, 1/4]]\<rparr>\<rparr>"

definition short_track :: AudioTrack where
  "short_track =
     \<lparr>track_id = ''b'', name = ''short'',
      track_file = Some \<lparr>buffer_sampleRate = 44100, channelData = [[1, -1]]\<rparr>,
      volume = 1/2, isMuted = False, isSolo = False, duration = 0, audioBuffer = None\<rparr>"


text \<open>
  A third mono track, a click of 13 samples at 44100 Hz: its duration is the double next
  above \<open>13 / 44100\<close>, and the product of that double and 44100 rounds to the double
  next above 13.
\<close>

definition click_track :: AudioTrack where
  "click_track =
     \<lparr>track_id = ''c'', name = ''click'', track_file = None, volume = 1, isMuted = False,
      isSolo = False, duration = 0,
      audioBuffer = Some \<lparr>buffer_sampleRate = 44100, channelData = [replicate 13 (1/2)]\<rparr>\<rparr>"

section \<open>Gain in decibels (TrackRow.tsx)\<close>

text \<open>
  The text of the dB field, by what the source makes of it: the sentinel
  \<^verbatim>\<open>'-inf'\<close>, a text that \<^verbatim>\<open>parseFloat\<close> reads as a number, or any other text.
\<close>

datatype dbText = MinusInf | Decimal real | NotANumber

text \<open>
  \<^verbatim>\<open>toFixed(1)\<close>: a negative number is formatted as the minus sign and the format of
  its absolute value; a non-negative number as the decimal with one fractional digit
  nearest to it, the larger one on a tie. So ties go away from zero.
\<close>

definition toFixed1 :: "real \<Rightarrow> real" where
  "toFixed1 x =
     (if x < 0 then - (real_of_int \<lfloor>10 * (- x) + 1 / 2\<rfloor> / 10)
      else real_of_int \<lfloor>10 * x + 1 / 2\<rfloor> / 10)"

definition getDbValue :: "real \<Rightarrow> dbText" where
  "getDbValue vol =
     (if vol \<le> 0.0001 then MinusInf
      else (let db = 20 * log 10 vol in Decimal (toFixed1 db)))"

text \<open>
  \<^verbatim>\<open>commitDbChange\<close>: the result is the volume handed to
  \<^verbatim>\<open>onVolumeChange\<close>, or \<open>None\<close> when the text is not a number and the field is
  reset instead.
\<close>

definition commitDbChange :: "dbText \<Rightarrow> real option" where
  "commitDbChange dbInput =
     (case dbInput of
        MinusInf \<Rightarrow> Some (max 0 (min 1 0))
      | Decimal parsedDb \<Rightarrow>
          (let clampedDb = min parsedDb 0;
               newVol = 10 powr (clampedDb / 20)
           in Some (max 0 (min 1 newVol)))
      | NotANumber \<Rightarrow> None)"

section \<open>The container layout and a decoder\<close>

text \<open>
  The conversion of one sample by the 16-bit paths: clamp, scale, truncate.
\<close>

definition pcm16 :: "real \<Rightarrow> 16 word" where
  "pcm16 s = ToInt16 (scale_pcm (clamp_unit (Num s)))"

text \<open>The characters of a tag as bytes.\<close>

definition ascii :: "string \<Rightarrow> 8 word list" where
  "ascii s = map (\<lambda>c. word_of_nat (of_char c)) s"

text \<open>The number a byte sequence stands for when the lowest byte comes first.\<close>

fun le_value :: "8 word list \<Rightarrow> nat" where
  "le_value [] = 0"
| "le_value (b # bs) = unat b + 256 * le_value bs"

text \<open>
  The header of the container as the specification words it: the chunk tags and lengths
  of a RIFF/WAVE file around the format tag, the channel count, the sample rate, the
  byte rate \<open>sampleRate * blockAlign\<close>, the block align \<open>channels * bytesPerSample\<close>,
  the bits per sample and the data length, every number lowest byte first.
\<close>

definition wav_header :: "nat \<Rightarrow> nat \<Rightarrow> nat \<Rightarrow> nat \<Rightarrow> nat \<Rightarrow> 8 word list" where
  "wav_header formatTag channels sampleRate bitsPerSample dataLength =
     (let blockAlign = channels * (bitsPerSample div 8)
      in ascii ''RIFF'' @ bytes32 (word_of_nat (36 + dataLength)) @ ascii ''WAVE'' @
         ascii ''fmt '' @ bytes32 16 @
         bytes16 (word_of_nat formatTag) @
         bytes16 (word_of_nat channels) @
         bytes32 (word_of_nat sampleRate) @
         bytes32 (word_of_nat (sampleRate * blockAlign)) @
         bytes16 (word_of_nat blockAlign) @
         bytes16 (word_of_nat bitsPerSample) @
         ascii ''data'' @ bytes32 (word_of_nat dataLength))"

text \<open>Two channels in channel-minor order: L, R, L, R, and so on.\<close>

fun interleaved :: "'a list \<Rightarrow> 'a list \<Rightarrow> 'a list" where
  "interleaved (l # ls) (r # rs) = l # r # interleaved ls rs"
| "interleaved _ _ = []"

text \<open>
  Modelled from the spec: the decoder of the PCM container is not in the repository
  (decoding is the host's). This one reads the channel count and the data length from
  the header, takes the data as 16-bit two's complement samples, lowest byte first,
  maps a sample \<open>v\<close> to \<open>v / 32768\<close> (one quantization step is \<open>1 / 32768\<close>) and
  separates the channels.
\<close>

fun samples16 :: "8 word list \<Rightarrow> 16 word list" where
  "samples16 (lo # hi # rest) = word_of_nat (le_value [lo, hi]) # samples16 rest"
| "samples16 _ = []"

definition decode_sample :: "16 word \<Rightarrow> real" where
  "decode_sample v = real_of_int (sint v) / 32768"

definition decodeWAV :: "8 word list \<Rightarrow> real list list option" where
  "decodeWAV file =
     (if length file < 44 then None
      else
        (let channels = le_value (take 2 (drop 22 file));
             dataLength = le_value (take 4 (drop 40 file));
             samples = map decode_sample (samples16 (take dataLength (drop 44 file)));
             frames = length samples div channels
         in Some (map (\<lambda>c. map (\<lambda>k. samples ! (k * channels + c)) [0..<frames])
                    [0..<channels])))"

section \<open>Rounding to binary64\<close>

lemma pow2_powr: "pow2 i = 2 powr real_of_int i"
  by (simp add: pow2_def powr_int)

lemma pow2_pos: "0 < pow2 i"
  by (simp add: pow2_def)

lemma round_ties_even_nonneg: "0 \<le> x \<Longrightarrow> 0 \<le> round_ties_even x"
  by (auto simp: round_ties_even_def Let_def)

lemma binary64_nonneg: "0 \<le> x \<Longrightarrow> 0 \<le> binary64 x"
  using pow2_pos round_ties_even_nonneg
  by (auto simp: binary64_def Let_def less_imp_le)

text \<open>
  Once the binary exponent \<open>e\<close> of a positive normal \<open>x\<close> is known, the rounding is a
  computation on rationals.
\<close>

lemma binary64_eval:
  assumes "0 < x" and "pow2 e \<le> x" and "x < pow2 (e + 1)" and "- 1022 \<le> e"
  shows "binary64 x = real_of_int (round_ties_even (x / pow2 (e - 52))) * pow2 (e - 52)"
proof -
  have "\<lfloor>log 2 x\<rfloor> = e"
    using assms by (subst floor_log_eq_powr_iff) (simp_all add: pow2_powr)
  then show ?thesis
    using assms by (simp add: binary64_def Let_def max_def)
qed

text \<open>Below the normal range the spacing is that of the subnormal numbers.\<close>

lemma binary64_subnormal:
  assumes "0 < x" and "x < pow2 (- 1022)"
  shows "binary64 x = real_of_int (round_ties_even (x / pow2 (- 1074))) * pow2 (- 1074)"
proof -
  have "log 2 x < - 1022"
    using assms by (subst log_less_iff) (simp_all add: pow2_powr)
  then have "\<lfloor>log 2 x\<rfloor> < - 1022"
    by (simp add: floor_less_iff)
  then show ?thesis
    using assms by (simp add: binary64_def Let_def max_def)
qed

text \<open>
  Ties go to the even significand: \<open>2 ^ 53 + 1\<close> rounds down to \<open>2 ^ 53\<close> and
  \<open>2 ^ 53 + 3\<close> rounds up to \<open>2 ^ 53 + 4\<close>; half of the least subnormal number rounds to
  0 and three halves of it to twice it.
\<close>

lemma binary64_ties:
  "binary64 9007199254740993 = 9007199254740992"
  "binary64 9007199254740995 = 9007199254740996"
  by (subst binary64_eval [where e = 53],
      simp_all add: pow2_def round_ties_even_def Let_def)+

lemma binary64_underflow:
  "binary64 (pow2 (- 1075)) = 0"
  "binary64 (3 * pow2 (- 1075)) = 2 * pow2 (- 1074)"
  by (subst binary64_subnormal, simp_all add: pow2_def round_ties_even_def Let_def)+

text \<open>
  The durations of buffers of 2, 3 and 13 frames at 44100 Hz, and their products with
  44100: the first two round back to the frame count, the third one does not.
\<close>

lemma binary64_2_frames: "binary64 (2 / 44100) = 6692696262570359 / 2 ^ 67"
  by (subst binary64_eval [where e = "- 15"])
     (simp_all add: pow2_def round_ties_even_def Let_def)

lemma binary64_3_frames: "binary64 (3 / 44100) = 5019522196927769 / 2 ^ 66"
  by (subst binary64_eval [where e = "- 14"])
     (simp_all add: pow2_def round_ties_even_def Let_def)

lemma binary64_13_frames: "binary64 (13 / 44100) = 5437815713338417 / 2 ^ 64"
  by (subst binary64_eval [where e = "- 12"])
     (simp_all add: pow2_def round_ties_even_def Let_def)

lemma binary64_2_product: "binary64 (6692696262570359 / 2 ^ 67 * 44100) = 2"
  by (subst binary64_eval [where e = 1])
     (simp_all add: pow2_def round_ties_even_def Let_def)

lemma binary64_3_product: "binary64 (5019522196927769 / 2 ^ 66 * 44100) = 3"
  by (subst binary64_eval [where e = 1])
     (simp_all add: pow2_def round_ties_even_def Let_def)

lemma binary64_13_product:
  "binary64 (5437815713338417 / 2 ^ 64 * 44100) = 7318349394477057 / 2 ^ 49"
  by (subst binary64_eval [where e = 3])
     (simp_all add: pow2_def round_ties_even_def Let_def)

lemma binary64_10: "binary64 10 = 10"
  by (subst binary64_eval [where e = 3])
     (simp_all add: pow2_def round_ties_even_def Let_def)

lemma binary64_4: "binary64 4 = 4"
  by (subst binary64_eval [where e = 2])
     (simp_all add: pow2_def round_ties_even_def Let_def)

section \<open>The level meter: peak hold\<close>

lemma fold_squares:
  "fold (\<lambda>b sum. sum + (real (unat b) - 128) / 128 * ((real (unat b) - 128) / 128)) xs
     (acc::real) =
     acc + (\<Sum>b\<leftarrow>xs. ((real (unat b) - 128) / 128)\<^sup>2)"
  by (induction xs arbitrary: acc) (simp_all add: power2_eq_square)

lemma getRMS_mean_square:
  "getRMS dataArray =
     sqrt ((\<Sum>b\<leftarrow>dataArray. ((real (unat b) - 128) / 128)\<^sup>2) / real (length dataArray))"
  unfolding getRMS_def Let_def fold_squares by simp

lemma getRMS_nonneg: "0 \<le> getRMS dataArray"
  unfolding getRMS_mean_square
  by (intro real_sqrt_ge_zero divide_nonneg_nonneg sum_list_nonneg) auto

text \<open>A silent window: every byte is the midpoint 128.\<close>

lemma getRMS_silent: "getRMS (replicate k 128) = 0"
  by (simp add: getRMS_mean_square sum_list_replicate)

lemma drawChannel_nonneg: "0 \<le> drawChannel val peak"
  by (simp add: drawChannel_def Let_def)

lemma drawChannel_silent:
  "0 \<le> peak \<Longrightarrow> drawChannel (getRMS (replicate k 128)) peak = max 0 (peak - 0.005)"
  by (auto simp: drawChannel_def getRMS_silent Let_def)

lemma run_channel_silent:
  "0 \<le> peak \<Longrightarrow>
   run_channel (replicate n (replicate k 128)) peak = max 0 (peak - 0.005 * real n)"
proof (induction n arbitrary: peak)
  case 0
  then show ?case by simp
next
  case (Suc n)
  have "0 \<le> max 0 (peak - 0.005)" by simp
  from Suc.IH [OF this] show ?case
    using Suc.prems by (simp add: drawChannel_silent max_def algebra_simps)
qed

lemma run_channel_snoc:
  "run_channel (windows @ [dataArray]) peak =
     drawChannel (getRMS dataArray) (run_channel windows peak)"
  by (induction windows arbitrary: peak) simp_all

lemma drawChannel_rise:
  assumes "0 \<le> val" and "drawChannel val peak > peak"
  shows "min (val * 4) 1 \<ge> peak"
proof (rule ccontr)
  define renderVal where "renderVal = min (val * 4) 1"
  assume "\<not> min (val * 4) 1 \<ge> peak"
  then have lt: "renderVal < peak" unfolding renderVal_def by (simp only: not_le)
  have "0 \<le> renderVal" using assms(1) by (simp add: renderVal_def)
  with lt have pos: "0 < peak" by linarith
  have "drawChannel val peak =
      (if (if renderVal \<ge> peak then renderVal else peak - 0.005) < 0 then 0
       else (if renderVal \<ge> peak then renderVal else peak - 0.005))"
    by (simp add: drawChannel_def Let_def renderVal_def)
  also have "\<dots> = (if peak - 0.005 < 0 then 0 else peak - 0.005)"
    using lt by simp
  also have "\<dots> < peak" using pos by simp
  finally show False using assms(2) by simp
qed

text \<open>
  Claim C8. The RMS of a tick is the square root of the mean of the squares of the
  normalised bytes \<open>(byte - 128) / 128\<close>. On every tick, with
  \<open>renderVal = min (rms * 4) 1\<close>: when \<open>renderVal\<close> is at least the stored hold value the
  hold value becomes \<open>renderVal\<close>, otherwise it drops by exactly 0.005 and is floored at 0.
  So the hold value rises only on a tick whose \<open>renderVal\<close> is at least the current hold
  value, on a single tick and at every tick \<open>i\<close> of a run over any sequence of windows,
  and \<open>n\<close> silent ticks (every byte 128) take a hold value \<open>peak\<close> to
  \<open>max 0 (peak - 0.005 * n)\<close>.
\<close>

theorem peak_hold_step:
  "getRMS dataArray =
     sqrt ((\<Sum>b\<leftarrow>dataArray. ((real (unat b) - 128) / 128)\<^sup>2) / real (length dataArray)) \<and>
   (min (getRMS dataArray * 4) 1 \<ge> peak \<longrightarrow>
      drawChannel (getRMS dataArray) peak = min (getRMS dataArray * 4) 1) \<and>
   (min (getRMS dataArray * 4) 1 < peak \<longrightarrow>
      drawChannel (getRMS dataArray) peak = max 0 (peak - 0.005)) \<and>
   (drawChannel (getRMS dataArray) peak > peak \<longrightarrow>
      min (getRMS dataArray * 4) 1 \<ge> peak) \<and>
   (\<forall>i<length windows.
      run_channel (take (Suc i) windows) peak > run_channel (take i windows) peak \<longrightarrow>
      min (getRMS (windows ! i) * 4) 1 \<ge> run_channel (take i windows) peak) \<and>
   (0 \<le> peak \<longrightarrow>
      run_channel (replicate n (replicate k 128)) peak = max 0 (peak - 0.005 * real n))"
proof -
  have nn: "0 \<le> min (getRMS dataArray * 4) 1"
    using getRMS_nonneg [of dataArray] by simp
  define renderVal where "renderVal = min (getRMS dataArray * 4) 1"
  have dc: "drawChannel (getRMS dataArray) peak =
      (if (if renderVal \<ge> peak then renderVal else peak - 0.005) < 0 then 0
       else (if renderVal \<ge> peak then renderVal else peak - 0.005))"
    by (simp add: drawChannel_def Let_def renderVal_def)
  have a: "min (getRMS dataArray * 4) 1 \<ge> peak \<longrightarrow>
      drawChannel (getRMS dataArray) peak = min (getRMS dataArray * 4) 1"
    using nn unfolding dc renderVal_def [symmetric] by simp
  have b: "min (getRMS dataArray * 4) 1 < peak \<longrightarrow>
      drawChannel (getRMS dataArray) peak = max 0 (peak - 0.005)"
    unfolding dc renderVal_def [symmetric] by (simp add: max_def)
  have c: "drawChannel (getRMS dataArray) peak > peak \<longrightarrow>
      min (getRMS dataArray * 4) 1 \<ge> peak"
    using nn unfolding dc renderVal_def [symmetric] by (simp split: if_splits)
  have d: "0 \<le> peak \<longrightarrow>
      run_channel (replicate n (replicate k 128)) peak = max 0 (peak - 0.005 * real n)"
    by (simp add: run_channel_silent)
  have s: "min (getRMS (windows ! i) * 4) 1 \<ge> run_channel (take i windows) peak"
    if "i < length windows"
      and "run_channel (take (Suc i) windows) peak > run_channel (take i windows) peak" for i
  proof -
    have "run_channel (take (Suc i) windows) peak =
        drawChannel (getRMS (windows ! i)) (run_channel (take i windows) peak)"
      using that(1) by (simp add: take_Suc_conv_app_nth run_channel_snoc)
    with that(2) show ?thesis
      by (intro drawChannel_rise [OF getRMS_nonneg]) simp
  qed
  from getRMS_mean_square [of dataArray] a b c d s show ?thesis by blast
qed

text \<open>
  A window of two bytes 144 has the RMS \<open>1 / 8\<close> and is drawn at \<open>1 / 2\<close>: a hold value
  of 0.3 rises to 0.5, and one of 0.7 drops to 0.695. A window of two bytes 0 has the RMS
  1 and is drawn at 1, not at 4. A silent tick followed by a tick of RMS \<open>1 / 8\<close> takes
  the hold value 0.3 to 0.295 and then up to 0.5. From 0.5, three silent ticks lead to
  0.485 and two hundred to 0.
\<close>

theorem peak_hold_step_witness:
  "getRMS [144, 144] = 1 / 8 \<and>
   drawChannel (getRMS [144, 144]) (3 / 10) = 1 / 2 \<and>
   drawChannel (getRMS [144, 144]) (7 / 10) = 695 / 1000 \<and>
   getRMS [0, 0] = 1 \<and>
   drawChannel (getRMS [0, 0]) (1 / 2) = 1 \<and>
   run_channel [[128, 128]] (3 / 10) = 295 / 1000 \<and>
   run_channel [[128, 128], [144, 144]] (3 / 10) = 1 / 2 \<and>
   run_channel (replicate 3 (replicate 2 128)) (1 / 2) = 485 / 1000 \<and>
   run_channel (replicate 200 (replicate 2 128)) (1 / 2) = 0"
proof -
  let ?seq = "[[128, 128], [144, 144 :: 8 word]]"
  note soft_step = peak_hold_step [where dataArray = "[144, 144]" and windows = ?seq
      and n = 3 and k = 2]
  note loud_step = peak_hold_step [where dataArray = "[0, 0]" and windows = ?seq
      and n = 200 and k = 2]
  note silent_step = peak_hold_step [where dataArray = "[128, 128]" and windows = ?seq
      and n = 3 and k = 2]
  have "sqrt (1 / 64) = 1 / 8"
    by (rule real_sqrt_unique) (simp_all add: power2_eq_square)
  with soft_step [where peak = "3 / 10"]
  have soft: "getRMS [144, 144] = 1 / 8"
    by (simp add: power2_eq_square)
  from loud_step [where peak = "1 / 2"]
  have loud: "getRMS [0, 0] = 1"
    by (simp add: power2_eq_square)
  from silent_step [where peak = "3 / 10"]
  have quiet: "getRMS [128, 128] = 0"
    by simp
  have rise: "drawChannel (getRMS [144, 144]) (3 / 10) = 1 / 2"
    using soft_step [where peak = "3 / 10"] unfolding soft by simp
  have drop: "drawChannel (getRMS [144, 144]) (7 / 10) = 695 / 1000"
    using soft_step [where peak = "7 / 10"] unfolding soft by simp
  have clamp: "drawChannel (getRMS [0, 0]) (1 / 2) = 1"
    using loud_step [where peak = "1 / 2"] unfolding loud by simp
  have tick1: "drawChannel (getRMS [128, 128]) (3 / 10) = 295 / 1000"
    using silent_step [where peak = "3 / 10"] unfolding quiet by simp
  have tick2: "drawChannel (getRMS [144, 144]) (295 / 1000) = 1 / 2"
    using soft_step [where peak = "295 / 1000"] unfolding soft by simp
  have seq1: "run_channel [[128, 128]] (3 / 10) = 295 / 1000"
    by (simp only: run_channel.simps tick1)
  have seq2: "run_channel ?seq (3 / 10) = 1 / 2"
    by (simp only: run_channel.simps tick1 tick2)
  have three: "run_channel (replicate 3 (replicate 2 128)) (1 / 2) = 485 / 1000"
    using silent_step [where peak = "1 / 2"] by simp
  have many: "run_channel (replicate 200 (replicate 2 128)) (1 / 2) = 0"
    using loud_step [where peak = "1 / 2"] by simp
  from soft rise drop loud clamp seq1 seq2 three many show ?thesis by blast
qed

section \<open>Mixdown: active tracks, length and errors\<close>

lemma load_buffers_error:
  "load_buffers ts m bs tr = (tr', Inl e) \<Longrightarrow> e = DecodeFailed"
  by (induction ts arbitrary: m bs tr) (auto split: option.splits)

lemma buffer_duration_nonneg: "0 \<le> buffer_duration b"
  by (simp add: buffer_duration_def binary64_nonneg)

lemma load_buffers_step:
  assumes "track_buffer t = Some b"
  shows "\<exists>tr1. load_buffers (t # ts) m bs tr =
           load_buffers ts (max (buffer_duration b) m) (bs @ [(b, volume t)]) tr1"
proof (cases "audioBuffer t")
  case None
  with assms have "track_file t = Some b" by (simp add: track_buffer_def)
  with None show ?thesis by (auto simp: max_def)
next
  case (Some a)
  with assms have "a = b" by (simp add: track_buffer_def)
  with Some show ?thesis by (auto simp: max_def)
qed

lemma load_buffers_ok:
  "\<forall>t\<in>set ts. track_buffer t \<noteq> None \<Longrightarrow>
   \<exists>tr'. load_buffers ts m bs tr =
     (tr', Inr (fold (\<lambda>t m. max (buffer_duration (the (track_buffer t))) m) ts m,
               bs @ map (\<lambda>t. (the (track_buffer t), volume t)) ts))"
proof (induction ts arbitrary: m bs tr)
  case Nil
  then show ?case by simp
next
  case (Cons t ts)
  then obtain b where b: "track_buffer t = Some b" by auto
  from load_buffers_step [OF b] obtain tr1 where
    "load_buffers (t # ts) m bs tr =
       load_buffers ts (max (buffer_duration b) m) (bs @ [(b, volume t)]) tr1" by blast
  moreover from Cons.prems have "\<forall>t\<in>set ts. track_buffer t \<noteq> None" by simp
  from Cons.IH [OF this, of "max (buffer_duration b) m" "bs @ [(b, volume t)]" tr1]
  obtain tr' where "load_buffers ts (max (buffer_duration b) m) (bs @ [(b, volume t)]) tr1 =
     (tr', Inr (fold (\<lambda>t m. max (buffer_duration (the (track_buffer t))) m) ts
                  (max (buffer_duration b) m),
               (bs @ [(b, volume t)]) @ map (\<lambda>t. (the (track_buffer t), volume t)) ts))"
    by blast
  ultimately show ?case using b by simp
qed

lemma fold_max_Max:
  "fold (\<lambda>t m. max (f t) m) ts (m::real) = (if ts = [] then m else max m (Max (f ` set ts)))"
proof (induction ts arbitrary: m)
  case Nil
  then show ?case by simp
next
  case (Cons t ts)
  show ?case
  proof (cases "ts = []")
    case True
    then show ?thesis by (simp add: max.commute)
  next
    case False
    then have "Max (insert (f t) (f ` set ts)) = max (f t) (Max (f ` set ts))"
      by (simp add: Max_insert)
    with Cons False show ?thesis by (simp add: max.assoc max.commute)
  qed
qed

lemma Max_nonneg_durations:
  "ts \<noteq> [] \<Longrightarrow> max 0 (Max ((\<lambda>t. buffer_duration (g t)) ` set ts)) = Max ((\<lambda>t. buffer_duration (g t)) ` set ts)"
proof -
  assume "ts \<noteq> []"
  then obtain t where "t \<in> set ts" by (cases ts) auto
  then have "buffer_duration (g t) \<le> Max ((\<lambda>t. buffer_duration (g t)) ` set ts)"
    by (intro Max_ge) auto
  with buffer_duration_nonneg [of "g t"] show ?thesis by simp
qed

lemma mixdown_empty: "filter (\<lambda>t. \<not> isMuted t) tracks = [] \<Longrightarrow> mixdown tracks mv = ([], Inl NoActiveTracks)"
  by (simp add: mixdown_def)

lemma mixdown_error: "filter (\<lambda>t. \<not> isMuted t) tracks \<noteq> [] \<Longrightarrow> snd (mixdown tracks mv) \<noteq> Inl NoActiveTracks"
  by (auto simp: mixdown_def Let_def split: prod.splits sum.splits dest: load_buffers_error)

lemma mixdown_ok:
  assumes act: "filter (\<lambda>t. \<not> isMuted t) tracks \<noteq> []"
    and bufs: "\<forall>t\<in>set tracks. \<not> isMuted t \<longrightarrow> track_buffer t \<noteq> None"
  shows "\<exists>tr. mixdown tracks mv =
     (tr, Inr (startRendering 2
        (nat \<lceil>binary64 (Max (set (map (\<lambda>t. buffer_duration (the (track_buffer t)))
                                   (filter (\<lambda>t. \<not> isMuted t) tracks))) * 44100)\<rceil>)
        44100 mv
        (map (\<lambda>t. (the (track_buffer t), volume t)) (filter (\<lambda>t. \<not> isMuted t) tracks))))"
proof -
  let ?act = "filter (\<lambda>t. \<not> isMuted t) tracks"
  let ?d = "\<lambda>t. buffer_duration (the (track_buffer t))"
  from bufs have "\<forall>t\<in>set ?act. track_buffer t \<noteq> None" by simp
  from load_buffers_ok [OF this, of 0 "[]" "[ContextOpened]"]
  obtain tr' where l: "load_buffers ?act 0 [] [ContextOpened] =
     (tr', Inr (fold (\<lambda>t m. max (?d t) m) ?act 0, map (\<lambda>t. (the (track_buffer t), volume t)) ?act))"
    by auto
  have "fold (\<lambda>t m. max (?d t) m) ?act 0 = max 0 (Max (?d ` set ?act))"
    using act by (simp only: fold_max_Max if_False)
  also have "\<dots> = Max (?d ` set ?act)"
    using act by (rule Max_nonneg_durations)
  also have "?d ` set ?act = set (map ?d ?act)"
    by (simp only: set_map)
  finally have m: "fold (\<lambda>t m. max (?d t) m) ?act 0 = Max (set (map ?d ?act))" .
  have "mixdown tracks mv =
     (tr' @ [ContextClosed, Rendered (nat \<lceil>binary64 (Max (set (map ?d ?act)) * 44100)\<rceil>)],
      Inr (startRendering 2 (nat \<lceil>binary64 (Max (set (map ?d ?act)) * 44100)\<rceil>) 44100 mv
             (map (\<lambda>t. (the (track_buffer t), volume t)) ?act)))"
    unfolding mixdown_def Let_def l m using act by (simp del: set_map set_filter)
  then show ?thesis by blast
qed

lemma numberOfChannels_startRendering [simp]:
  "numberOfChannels (startRendering channels len sr mv srcs) = channels"
  by (simp add: startRendering_def numberOfChannels_def)

lemma getChannelData_startRendering:
  "c < channels \<Longrightarrow>
   getChannelData (startRendering channels len sr mv srcs) c =
     map (\<lambda>n. (\<Sum>(buffer, gain) \<leftarrow> srcs. source_sample buffer c n * gain) * mv) [0..<len]"
  by (simp add: startRendering_def getChannelData_def numberOfChannels_def)

lemma buffer_length_startRendering:
  "0 < channels \<Longrightarrow> buffer_length (startRendering channels len sr mv srcs) = len"
  by (simp add: startRendering_def buffer_length_def upt_conv_Cons split: list.splits)

lemma mixdown_filter: "mixdown (filter (\<lambda>t. \<not> isMuted t) tracks) mv = mixdown tracks mv"
  by (simp add: mixdown_def)

lemma worker_error: "worker_onmessage lib ch sr sl srr \<noteq> Inl NoActiveTracks"
  unfolding worker_onmessage_def
  by (simp split: option.split prod.split)

lemma mp3_error: "audioBufferToMp3 lib b \<noteq> Inl NoActiveTracks"
  unfolding audioBufferToMp3_def Let_def
  by (simp add: worker_error split: prod.split)

lemma bounce_cases:
  "mixdown tracks mv = (tr, res) \<Longrightarrow>
   snd (bounceTracks lib float32 tracks mv fmt) =
     (case res of Inl e \<Rightarrow> Inl e
      | Inr renderedBuffer \<Rightarrow>
          if fmt = mp3 then audioBufferToMp3 lib renderedBuffer
          else (case audioBufferToWav float32 renderedBuffer False of
                   None \<Rightarrow> Inl RangeError | Some blob \<Rightarrow> Inr blob))"
  by (simp add: bounceTracks_def split: sum.split)

lemma bounce_error_not_none_active:
  assumes act: "filter (\<lambda>t. \<not> isMuted t) tracks \<noteq> []"
  shows "snd (bounceTracks lib float32 tracks mv fmt) \<noteq> Inl NoActiveTracks"
proof -
  obtain tr res where m: "mixdown tracks mv = (tr, res)" by (cases "mixdown tracks mv")
  with mixdown_error [OF act, of mv] have res: "res \<noteq> Inl NoActiveTracks" by simp
  show ?thesis
    unfolding bounce_cases [OF m]
    using res by (auto simp: mp3_error split: sum.split option.split)
qed

text \<open>
  Claim C1. When the list has an unmuted track and every unmuted track has a buffer
  (cached or decodable), the export renders a buffer of two channels, each of length
  \<^verbatim>\<open>Math.ceil(maxDuration * 44100)\<close>, where \<open>maxDuration\<close> is the largest buffer duration
  among the unmuted tracks and only those, and the product is the program's product of
  doubles, rounded to binary64 before the ceiling. Muting the longest track therefore
  shortens the rendered mix to the longest remaining unmuted track.
\<close>

theorem rendered_length:
  assumes "filter (\<lambda>t. \<not> isMuted t) tracks \<noteq> []"
    and "\<forall>t\<in>set tracks. \<not> isMuted t \<longrightarrow> track_buffer t \<noteq> None"
  shows "\<exists>rendered. snd (mixdown tracks masterVolume) = Inr rendered \<and>
           numberOfChannels rendered = 2 \<and>
           (\<forall>c<2. length (getChannelData rendered c) =
              nat \<lceil>binary64 (Max (set (map (\<lambda>t. buffer_duration (the (track_buffer t)))
                                        (filter (\<lambda>t. \<not> isMuted t) tracks))) * 44100)\<rceil>)"
proof -
  from mixdown_ok [OF assms, of masterVolume] obtain tr where
    "mixdown tracks masterVolume =
     (tr, Inr (startRendering 2
        (nat \<lceil>binary64 (Max (set (map (\<lambda>t. buffer_duration (the (track_buffer t)))
                                   (filter (\<lambda>t. \<not> isMuted t) tracks))) * 44100)\<rceil>)
        44100 masterVolume
        (map (\<lambda>t. (the (track_buffer t), volume t)) (filter (\<lambda>t. \<not> isMuted t) tracks))))"
    by blast
  then show ?thesis
    by (simp add: getChannelData_startRendering del: set_map set_filter)
qed

text \<open>
  The example session renders 3 frames, and 2 frames once the long track is muted. The
  click of 13 samples renders 14 frames: the rounded product lies above 13.
\<close>

theorem rendered_length_witness:
  "(\<exists>rendered. snd (mixdown [long_track, short_track] 1) = Inr rendered \<and>
      length (getChannelData rendered 0) = 3 \<and> length (getChannelData rendered 1) = 3) \<and>
   (\<exists>rendered. snd (mixdown [long_track\<lparr>isMuted := True\<rparr>, short_track] 1) = Inr rendered \<and>
      length (getChannelData rendered 0) = 2 \<and> length (getChannelData rendered 1) = 2) \<and>
   (\<exists>rendered. snd (mixdown [click_track, short_track\<lparr>isMuted := True\<rparr>] 1) = Inr rendered \<and>
      length (getChannelData rendered 0) = 14 \<and> length (getChannelData rendered 1) = 14)"
proof -
  let ?d = "\<lambda>t. buffer_duration (the (track_buffer t))"
  let ?act = "filter (\<lambda>t. \<not> isMuted t)"
  have "?d long_track = binary64 (3 / 44100)" "?d short_track = binary64 (2 / 44100)"
    "?d click_track = binary64 (13 / 44100)"
    by (simp_all add: long_track_def short_track_def click_track_def track_buffer_def
        buffer_duration_def buffer_length_def)
  then have d: "?d long_track = 5019522196927769 / 2 ^ 66"
    "?d short_track = 6692696262570359 / 2 ^ 67"
    "?d click_track = 5437815713338417 / 2 ^ 64"
    by (simp_all only: binary64_3_frames binary64_2_frames binary64_13_frames)
  have f: "?act [long_track, short_track] = [long_track, short_track]"
    "?act [long_track\<lparr>isMuted := True\<rparr>, short_track] = [short_track]"
    "?act [click_track, short_track\<lparr>isMuted := True\<rparr>] = [click_track]"
    by (simp_all add: long_track_def short_track_def click_track_def)
  have mx: "Max (set (map ?d [long_track, short_track])) = 5019522196927769 / 2 ^ 66"
    "Max (set (map ?d [short_track])) = 6692696262570359 / 2 ^ 67"
    "Max (set (map ?d [click_track])) = 5437815713338417 / 2 ^ 64"
    by (simp_all add: d)
  have len: "nat \<lceil>binary64 (Max (set (map ?d [long_track, short_track])) * 44100)\<rceil> = 3"
    "nat \<lceil>binary64 (Max (set (map ?d [short_track])) * 44100)\<rceil> = 2"
    "nat \<lceil>binary64 (Max (set (map ?d [click_track])) * 44100)\<rceil> = 14"
    unfolding mx binary64_3_product binary64_2_product binary64_13_product by simp_all
  have b: "\<exists>y. track_buffer long_track = Some y" "\<exists>y. track_buffer short_track = Some y"
    "\<exists>y. track_buffer click_track = Some y"
    by (simp_all add: long_track_def short_track_def click_track_def track_buffer_def)
  have two: "(0::nat) < 2" "(1::nat) < 2" by simp_all
  have "\<exists>rendered. snd (mixdown [long_track, short_track] 1) = Inr rendered \<and>
          numberOfChannels rendered = 2 \<and> (\<forall>c<2. length (getChannelData rendered c) = 3)"
    using rendered_length [of "[long_track, short_track]" 1]
    unfolding f len by (simp add: b)
  then obtain r1 where r1: "snd (mixdown [long_track, short_track] 1) = Inr r1"
    "\<forall>c<2. length (getChannelData r1 c) = 3"
    by blast
  have "\<exists>rendered. snd (mixdown [long_track\<lparr>isMuted := True\<rparr>, short_track] 1) = Inr rendered \<and>
          numberOfChannels rendered = 2 \<and> (\<forall>c<2. length (getChannelData rendered c) = 2)"
    using rendered_length [of "[long_track\<lparr>isMuted := True\<rparr>, short_track]" 1]
    unfolding f len by (simp add: b)
  then obtain r2 where r2: "snd (mixdown [long_track\<lparr>isMuted := True\<rparr>, short_track] 1) = Inr r2"
    "\<forall>c<2. length (getChannelData r2 c) = 2"
    by blast
  have "\<exists>rendered. snd (mixdown [click_track, short_track\<lparr>isMuted := True\<rparr>] 1) = Inr rendered \<and>
          numberOfChannels rendered = 2 \<and> (\<forall>c<2. length (getChannelData rendered c) = 14)"
    using rendered_length [of "[click_track, short_track\<lparr>isMuted := True\<rparr>]" 1]
    unfolding f len by (simp add: b)
  then obtain r3 where r3: "snd (mixdown [click_track, short_track\<lparr>isMuted := True\<rparr>] 1) = Inr r3"
    "\<forall>c<2. length (getChannelData r3 c) = 14"
    by blast
  from r1 r2 r3 two show ?thesis by blast
qed

text \<open>
  Claim C2. An export fails with the no-active-tracks error exactly when no track of the
  list is unmuted, whatever the format, the encoder library and the other tracks'
  state. It then fails with an empty trace, before any decoding, rendering or encoding,
  and returns no blob; with an unmuted track in the list this error is never the result.
\<close>

theorem no_active_tracks_error:
  "(snd (bounceTracks lib float32 tracks masterVolume fmt) = Inl NoActiveTracks) =
     (filter (\<lambda>t. \<not> isMuted t) tracks = []) \<and>
   (bounceTracks lib float32 tracks masterVolume fmt = ([], Inl NoActiveTracks)) =
     (filter (\<lambda>t. \<not> isMuted t) tracks = [])"
proof (cases "filter (\<lambda>t. \<not> isMuted t) tracks = []")
  case True
  then show ?thesis by (simp add: bounceTracks_def mixdown_empty)
next
  case False
  from bounce_error_not_none_active [OF this, of lib float32 masterVolume fmt]
  have "snd (bounceTracks lib float32 tracks masterVolume fmt) \<noteq> Inl NoActiveTracks" .
  moreover from this
  have "bounceTracks lib float32 tracks masterVolume fmt \<noteq> ([], Inl NoActiveTracks)"
    by (metis snd_conv)
  ultimately show ?thesis using False by simp
qed

section \<open>Solo and the mix\<close>

lemma find_track_Some:
  "ident \<in> track_id ` set prev \<Longrightarrow> \<exists>t. find (\<lambda>t. track_id t = ident) prev = Some t"
  by (induction prev) auto

lemma handleSoloToggle_found:
  "find (\<lambda>t. track_id t = ident) prev = Some tt \<Longrightarrow>
   handleSoloToggle ident prev =
     (let upd = map (\<lambda>t. if track_id t = ident then t\<lparr>isSolo := \<not> isSolo tt\<rparr> else t) prev
      in map (\<lambda>t. if list_ex isSolo upd then t\<lparr>isMuted := \<not> isSolo t\<rparr>
                   else t\<lparr>isMuted := False\<rparr>) upd)"
  unfolding handleSoloToggle_def by (simp only: option.case Let_def)

lemma mute_rule_flags:
  "(list_ex isSolo (map (\<lambda>t. if a then t\<lparr>isMuted := \<not> isSolo t\<rparr> else t\<lparr>isMuted := False\<rparr>) upd)
      = list_ex isSolo upd)"
  by (induction upd) simp_all

lemma mute_rule_all:
  "t \<in> set (map (\<lambda>t. if list_ex isSolo upd then t\<lparr>isMuted := \<not> isSolo t\<rparr>
                       else t\<lparr>isMuted := False\<rparr>) upd) \<Longrightarrow>
   isMuted t = (if list_ex isSolo upd then \<not> isSolo t else False)"
  by (cases "list_ex isSolo upd") auto

lemma solo_toggle_flags:
  assumes "ident \<in> track_id ` set prev"
  shows "(list_ex isSolo (handleSoloToggle ident prev) \<longrightarrow>
           (\<forall>t\<in>set (handleSoloToggle ident prev). isMuted t = (\<not> isSolo t))) \<and>
         (\<not> list_ex isSolo (handleSoloToggle ident prev) \<longrightarrow>
           (\<forall>t\<in>set (handleSoloToggle ident prev). \<not> isMuted t))"
proof -
  from find_track_Some [OF assms] obtain tt where f: "find (\<lambda>t. track_id t = ident) prev = Some tt"
    by blast
  define upd where "upd = map (\<lambda>t. if track_id t = ident then t\<lparr>isSolo := \<not> isSolo tt\<rparr> else t) prev"
  have h: "handleSoloToggle ident prev =
      map (\<lambda>t. if list_ex isSolo upd then t\<lparr>isMuted := \<not> isSolo t\<rparr> else t\<lparr>isMuted := False\<rparr>) upd"
    unfolding handleSoloToggle_found [OF f] upd_def Let_def ..
  have ex: "list_ex isSolo (handleSoloToggle ident prev) = list_ex isSolo upd"
    unfolding h by (rule mute_rule_flags)
  have "isMuted t = (if list_ex isSolo upd then \<not> isSolo t else False)"
    if "t \<in> set (handleSoloToggle ident prev)" for t
    using that unfolding h by (rule mute_rule_all)
  then show ?thesis
    unfolding ex by simp
qed

lemma solo_only_active:
  assumes "ident \<in> track_id ` set prev"
    and "filter isSolo (handleSoloToggle ident prev) = [t]"
  shows "filter (\<lambda>t. \<not> isMuted t) (handleSoloToggle ident prev) = [t]"
proof -
  from assms(2) have "t \<in> set (filter isSolo (handleSoloToggle ident prev))" by simp
  then have "list_ex isSolo (handleSoloToggle ident prev)" by (auto simp: list_ex_iff)
  with solo_toggle_flags [OF assms(1)]
  have "\<forall>t\<in>set (handleSoloToggle ident prev). isMuted t = (\<not> isSolo t)" by blast
  then have "filter (\<lambda>t. \<not> isMuted t) (handleSoloToggle ident prev) =
             filter isSolo (handleSoloToggle ident prev)"
    by (intro filter_cong) auto
  with assms(2) show ?thesis by simp
qed

lemma mixdown_single:
  assumes "filter (\<lambda>t. \<not> isMuted t) tracks = [t]" and "track_buffer t = Some b"
  shows "\<exists>tr. mixdown tracks mv =
           (tr, Inr (startRendering 2 (nat \<lceil>binary64 (buffer_duration b * 44100)\<rceil>) 44100 mv [(b, volume t)]))"
proof -
  have act: "filter (\<lambda>t. \<not> isMuted t) tracks \<noteq> []" using assms(1) by simp
  have "\<forall>u\<in>set (filter (\<lambda>t. \<not> isMuted t) tracks). track_buffer u \<noteq> None"
    using assms by simp
  then have bufs: "\<forall>u\<in>set tracks. \<not> isMuted u \<longrightarrow> track_buffer u \<noteq> None" by simp
  from mixdown_ok [OF act bufs, of mv] show ?thesis
    unfolding assms(1) using assms(2) by simp
qed

lemma sum_list_single_source:
  "(\<Sum>(buffer, gain) \<leftarrow> [(b, g)]. source_sample buffer c n * gain) = source_sample b c n * g"
  by simp

text \<open>
  Claim C3. After a solo toggle on a track of the list: when some track of the new list
  is soloed, every track's mute flag is the negation of its solo flag; when none is, every
  mute flag is false. So when exactly one track is soloed after the toggle, and that track
  has a buffer, the export is the export of that track alone: the rendered mix has, at
  every index of both channels, that track's sample times its own volume times the master
  volume, and no other track contributes.
\<close>

theorem solo_toggle_mix:
  assumes "ident \<in> track_id ` set tracks"
  shows "(list_ex isSolo (handleSoloToggle ident tracks) \<longrightarrow>
           (\<forall>t\<in>set (handleSoloToggle ident tracks). isMuted t = (\<not> isSolo t))) \<and>
         (\<not> list_ex isSolo (handleSoloToggle ident tracks) \<longrightarrow>
           (\<forall>t\<in>set (handleSoloToggle ident tracks). \<not> isMuted t)) \<and>
         (\<forall>t b. filter isSolo (handleSoloToggle ident tracks) = [t] \<and> track_buffer t = Some b \<longrightarrow>
            mixdown (handleSoloToggle ident tracks) masterVolume = mixdown [t] masterVolume \<and>
            (\<exists>rendered.
               snd (mixdown (handleSoloToggle ident tracks) masterVolume) = Inr rendered \<and>
               numberOfChannels rendered = 2 \<and>
               (\<forall>c<2. getChannelData rendered c =
                  map (\<lambda>n. source_sample b c n * volume t * masterVolume)
                    [0..<nat \<lceil>binary64 (buffer_duration b * 44100)\<rceil>])))"
proof -
  let ?ts = "handleSoloToggle ident tracks"
  have "mixdown ?ts masterVolume = mixdown [t] masterVolume \<and>
        (\<exists>rendered. snd (mixdown ?ts masterVolume) = Inr rendered \<and>
           numberOfChannels rendered = 2 \<and>
           (\<forall>c<2. getChannelData rendered c =
              map (\<lambda>n. source_sample b c n * volume t * masterVolume)
                [0..<nat \<lceil>binary64 (buffer_duration b * 44100)\<rceil>]))"
    if solo: "filter isSolo ?ts = [t]" and buf: "track_buffer t = Some b" for t b
  proof -
    have act: "filter (\<lambda>t. \<not> isMuted t) ?ts = [t]"
      by (rule solo_only_active [OF assms solo])
    then have "t \<in> set (filter (\<lambda>t. \<not> isMuted t) ?ts)" by simp
    then have "\<not> isMuted t" by simp
    then have "filter (\<lambda>t. \<not> isMuted t) [t] = filter (\<lambda>t. \<not> isMuted t) ?ts"
      using act by simp
    then have "mixdown [t] masterVolume = mixdown ?ts masterVolume"
      by (metis mixdown_filter)
    moreover from mixdown_single [OF act buf, of masterVolume] obtain tr where
      "mixdown ?ts masterVolume =
         (tr, Inr (startRendering 2 (nat \<lceil>binary64 (buffer_duration b * 44100)\<rceil>) 44100 masterVolume
                     [(b, volume t)]))" by blast
    ultimately show ?thesis
      by (simp add: getChannelData_startRendering)
  qed
  with solo_toggle_flags [OF assms] show ?thesis by blast
qed

theorem solo_toggle_mix_witness:
  "map isMuted (handleSoloToggle ''b'' [long_track, short_track]) = [True, False] \<and>
   (\<exists>rendered. snd (mixdown (handleSoloToggle ''b'' [long_track, short_track]) 2) = Inr rendered \<and>
      getChannelData rendered 0 = [1, -1] \<and> getChannelData rendered 1 = [1, -1])"
proof -
  let ?ts = "handleSoloToggle ''b'' [long_track, short_track]"
  let ?b = "\<lparr>buffer_sampleRate = 44100, channelData = [[1, -1 :: real]]\<rparr>"
  have ts: "?ts = [long_track\<lparr>isMuted := True\<rparr>, short_track\<lparr>isSolo := True\<rparr>]"
    by (simp add: handleSoloToggle_def long_track_def short_track_def)
  have solo: "filter isSolo ?ts = [short_track\<lparr>isSolo := True\<rparr>]"
    unfolding ts by (simp add: long_track_def short_track_def)
  have buf: "track_buffer (short_track\<lparr>isSolo := True\<rparr>) = Some ?b"
    by (simp add: track_buffer_def short_track_def)
  have mem: "''b'' \<in> track_id ` set [long_track, short_track]"
    by (simp add: short_track_def)
  have dur: "buffer_duration ?b = 6692696262570359 / 2 ^ 67"
    unfolding binary64_2_frames [symmetric]
    by (simp add: buffer_duration_def buffer_length_def)
  have len: "nat \<lceil>binary64 (buffer_duration ?b * 44100)\<rceil> = 2"
    unfolding dur binary64_2_product by simp
  have s: "source_sample ?b c 0 = 1" "source_sample ?b c (Suc 0) = -1" for c
    by (simp_all add: source_sample_def numberOfChannels_def getChannelData_def)
  have vol: "volume (short_track\<lparr>isSolo := True\<rparr>) = 1/2"
    by (simp add: short_track_def)
  have upt: "[0..<2] = [0, 1]" by (simp add: upt_conv_Cons)
  from solo_toggle_mix [OF mem, of 2] solo buf
  obtain rendered where r: "snd (mixdown ?ts 2) = Inr rendered"
    "\<forall>c<2. getChannelData rendered c =
        map (\<lambda>n. source_sample ?b c n * volume (short_track\<lparr>isSolo := True\<rparr>) * 2)
          [0..<nat \<lceil>binary64 (buffer_duration ?b * 44100)\<rceil>]"
    by blast
  from r(2) have "getChannelData rendered 0 = [1, -1]" "getChannelData rendered 1 = [1, -1]"
    unfolding len upt vol by (simp_all add: s)
  moreover have "map isMuted ?ts = [True, False]"
    unfolding ts by (simp add: short_track_def)
  ultimately show ?thesis using r(1) by blast
qed

section \<open>The total playback duration\<close>

lemma remove_keeps_duration:
  "st_playback (handleRemoveTrack ident st) = st_playback st \<and>
   maxDurationRef (handleRemoveTrack ident st) = maxDurationRef st"
  by (simp add: handleRemoveTrack_def)

lemma ready_loop_ratchet:
  "ready_loop ident buffer ts (ref, p) = (ts', ref', p') \<Longrightarrow>
   ref \<le> ref' \<and> (total_duration p \<le> ref \<longrightarrow> total_duration p \<le> total_duration p' \<and> total_duration p' \<le> ref')"
proof (induction ts arbitrary: ref p ts' ref' p')
  case Nil
  then show ?case by simp
next
  case (Cons t ts)
  show ?case
  proof (cases "track_id t \<noteq> ident")
    case True
    with Cons.prems obtain ts1 where "ready_loop ident buffer ts (ref, p) = (ts1, ref', p')"
      by (auto split: prod.splits)
    from Cons.IH [OF this] show ?thesis .
  next
    case False
    show ?thesis
    proof (cases "buffer_duration buffer > ref")
      case True
      with False Cons.prems obtain ts1 where
        "ready_loop ident buffer ts (buffer_duration buffer, p\<lparr>total_duration := buffer_duration buffer\<rparr>) = (ts1, ref', p')"
        by (auto split: prod.splits)
      from Cons.IH [OF this] True show ?thesis by auto
    next
      case F: False
      with False Cons.prems obtain ts1 where
        "ready_loop ident buffer ts (ref, p) = (ts1, ref', p')"
        by (auto split: prod.splits)
      from Cons.IH [OF this] show ?thesis .
    qed
  qed
qed

text \<open>
  Claim C10 asks that the total playback duration be recomputed from the current tracks
  on every change, so that removing the longest track brings it down to the longest
  remaining one. The source does not do this: \<^verbatim>\<open>handleRemoveTrack\<close> leaves the playback
  state and \<^verbatim>\<open>maxDurationRef\<close> as they are, and \<^verbatim>\<open>handleTrackReady\<close> only ever
  raises both. In the session below a track of 10 s and one of 4 s become ready and the
  long one is removed: the remaining track lasts 4 s and the reported duration is still 10 s.
\<close>

theorem stale_duration_after_remove:
  "(let bufA = \<lparr>buffer_sampleRate = 1, channelData = [replicate 10 0]\<rparr>;
        bufB = \<lparr>buffer_sampleRate = 1, channelData = [replicate 4 0]\<rparr>;
        st1 = addFiles [(''a'', ''long'', Some bufA), (''b'', ''short'', Some bufB)] App_init;
        st2 = handleTrackReady ''a'' bufA st1;
        st3 = handleTrackReady ''b'' bufB st2;
        st4 = handleRemoveTrack ''a'' st3
    in total_duration (st_playback st3) = 10 \<and>
       map duration (st_tracks st4) = [4] \<and>
       total_duration (st_playback st4) = 10 \<and>
       maxDurationRef st4 = 10)"
  by (simp add: Let_def addFiles_def App_init_def handleTrackReady_def handleRemoveTrack_def
      buffer_duration_def buffer_length_def binary64_10 binary64_4)

section \<open>The waveform summary\<close>







section \<open>The gain round trip through decibels\<close>

lemma log10_2_bounds: "119 / 400 < log 10 2" "log 10 2 \<le> 121 / 400"
proof -
  have e: "log 10 (2 ^ 400) = 400 * log 10 (2::real)"
    using log_nat_power [of 2 10 400] by simp
  have e1: "log 10 (10 ^ 119) = (119::real)"
    using log_nat_power [of 10 10 119] by simp
  have e2: "log 10 (10 ^ 121) = (121::real)"
    using log_nat_power [of 10 10 121] by simp
  have "log 10 (10 ^ 119) < log 10 ((2::real) ^ 400)"
    by (subst log_less_cancel_iff) simp_all
  then show "119 / 400 < log 10 2"
    unfolding e e1 by simp
  have "log 10 ((2::real) ^ 400) \<le> log 10 (10 ^ 121)"
    by (subst log_le_cancel_iff) simp_all
  then show "log 10 2 \<le> 121 / 400"
    unfolding e e2 by simp
qed

lemma log10_2_less: "log 10 2 < 121 / 400"
proof -
  have e: "log 10 (2 ^ 400) = 400 * log 10 (2::real)"
    using log_nat_power [of 2 10 400] by simp
  have e2: "log 10 (10 ^ 121) = (121::real)"
    using log_nat_power [of 10 10 121] by simp
  have "log 10 ((2::real) ^ 400) < log 10 (10 ^ 121)"
    by (subst log_less_cancel_iff) simp_all
  then show ?thesis
    unfolding e e2 by simp
qed

lemma round_half_up_near:
  "real_of_int \<lfloor>10 * y + 1 / 2\<rfloor> / 10 - y \<le> 1 / 20"
  "- (1 / 20) \<le> real_of_int \<lfloor>10 * y + 1 / 2\<rfloor> / 10 - (y::real)"
proof -
  have "real_of_int \<lfloor>10 * y + 1 / 2\<rfloor> \<le> 10 * y + 1 / 2" by (rule of_int_floor_le)
  then show "real_of_int \<lfloor>10 * y + 1 / 2\<rfloor> / 10 - y \<le> 1 / 20" by linarith
  have "10 * y + 1 / 2 < real_of_int \<lfloor>10 * y + 1 / 2\<rfloor> + 1" by linarith
  then show "- (1 / 20) \<le> real_of_int \<lfloor>10 * y + 1 / 2\<rfloor> / 10 - y" by linarith
qed

lemma toFixed1_near: "toFixed1 x - x \<le> 1 / 20" "- (1 / 20) \<le> toFixed1 x - x"
proof -
  show "toFixed1 x - x \<le> 1 / 20"
  proof (cases "x < 0")
    case True
    with round_half_up_near(2) [of "- x"] show ?thesis by (simp add: toFixed1_def)
  next
    case False
    with round_half_up_near(1) [of x] show ?thesis by (simp add: toFixed1_def)
  qed
  show "- (1 / 20) \<le> toFixed1 x - x"
  proof (cases "x < 0")
    case True
    with round_half_up_near(1) [of "- x"] show ?thesis by (simp add: toFixed1_def)
  next
    case False
    with round_half_up_near(2) [of x] show ?thesis by (simp add: toFixed1_def)
  qed
qed

lemma toFixed1_nonpos: "x \<le> 0 \<Longrightarrow> toFixed1 x \<le> 0"
proof (cases "x < 0")
  case True
  have "0 \<le> \<lfloor>10 * (- x) + 1 / 2\<rfloor>" using True by simp
  with True show ?thesis by (simp add: toFixed1_def)
next
  case False
  assume "x \<le> 0"
  with False have "x = 0" by simp
  then show ?thesis by (simp add: toFixed1_def)
qed

lemma getDbValue_half: "getDbValue (1/2) = Decimal (-6)"
proof -
  have l: "log 10 (1/2) = - log 10 (2::real)"
    by (simp add: log_divide)
  have neg: "20 * log 10 (1/2) < (0::real)"
    unfolding l using log10_2_bounds(1) by simp
  have "\<lfloor>10 * (- (20 * log 10 (1/2))) + 1/2 :: real\<rfloor> = 60"
    unfolding l using log10_2_bounds(1) log10_2_less by (intro floor_unique) simp_all
  then have "toFixed1 (20 * log 10 (1/2)) = - 6"
    unfolding toFixed1_def using neg by simp
  then show ?thesis
    by (simp add: getDbValue_def Let_def)
qed

lemma powr_tenth_lower: "501 / 1000 < (10::real) powr (-3/10)"
proof (rule ccontr)
  let ?x = "(10::real) powr (-3/10)"
  assume "\<not> 501 / 1000 < ?x"
  then have "?x \<le> 501 / 1000" by simp
  then have le: "?x ^ 10 \<le> (501 / 1000) ^ 10"
    by (intro power_mono) simp_all
  have "?x ^ 10 = ?x powr real (10::nat)"
    by (rule powr_realpow [symmetric]) simp
  also have "\<dots> = 10 powr (-3/10 * real (10::nat))"
    by (rule powr_powr)
  also have "\<dots> = 10 powr (-3)" by simp
  also have "\<dots> = inverse (10 powr 3)" by (rule powr_minus)
  also have "\<dots> = 1 / 1000" by simp
  finally have eq: "?x ^ 10 = 1 / 1000" .
  have "(1 / 1000 :: real) \<le> (501 / 1000) ^ 10"
    using le unfolding eq .
  then show False by (simp add: power_divide)
qed

lemma powr_tenth_upper: "(10::real) powr (-3/10) < 1"
  by (simp add: powr_less_one)

lemma root400_power: "((10::real) powr (1/400)) ^ 400 = 10"
proof -
  have "((10::real) powr (1/400)) ^ 400 = (10 powr (1/400)) powr real (400::nat)"
    by (rule powr_realpow [symmetric]) simp
  also have "\<dots> = 10 powr (1/400 * real (400::nat))"
    by (rule powr_powr)
  also have "\<dots> = 10" by simp
  finally show ?thesis .
qed

lemma inv_root400_power: "((10::real) powr (-1/400)) ^ 400 = 1 / 10"
proof -
  let ?y = "(10::real) powr (-1/400)"
  have "?y ^ 400 = ?y powr real (400::nat)"
    by (rule powr_realpow [symmetric]) simp
  also have "\<dots> = 10 powr (-1/400 * real (400::nat))"
    by (rule powr_powr)
  also have "\<dots> = 10 powr (-1)" by simp
  also have "\<dots> = inverse (10 powr 1)" by (rule powr_minus)
  also have "\<dots> = 1 / 10" by simp
  finally show ?thesis .
qed

lemma power400_split: "(x::real) ^ 400 = ((x ^ 4) ^ 10) ^ 10"
proof -
  have "((x ^ 4) ^ 10) ^ 10 = x ^ (4 * 10 * 10)"
    by (simp only: power_mult)
  then show ?thesis by simp
qed

lemma power400_large:
  assumes "1006 / 1000 \<le> (x::real)"
  shows "10 < x ^ 400"
proof -
  have "(1006 / 1000) ^ 4 \<le> x ^ 4"
    using assms by (intro power_mono) simp_all
  moreover have "(10242 / 10000 :: real) \<le> (1006 / 1000) ^ 4"
    by (simp add: power_divide)
  ultimately have a: "10242 / 10000 \<le> x ^ 4" by linarith
  have "(10242 / 10000) ^ 10 \<le> (x ^ 4) ^ 10"
    using a by (intro power_mono) simp_all
  moreover have "(127 / 100 :: real) \<le> (10242 / 10000) ^ 10"
    by (simp add: power_divide)
  ultimately have b: "127 / 100 \<le> (x ^ 4) ^ 10" by linarith
  have "(127 / 100) ^ 10 \<le> ((x ^ 4) ^ 10) ^ 10"
    using b by (intro power_mono) simp_all
  moreover have "(10 :: real) < (127 / 100) ^ 10"
    by (simp add: power_divide)
  ultimately show ?thesis
    unfolding power400_split by linarith
qed

lemma power400_small:
  assumes "0 \<le> (y::real)" and "y \<le> 994 / 1000"
  shows "y ^ 400 < 1 / 10"
proof -
  have "y ^ 4 \<le> (994 / 1000) ^ 4"
    using assms by (intro power_mono) simp_all
  moreover have "(994 / 1000) ^ 4 \<le> (9763 / 10000 :: real)"
    by (simp add: power_divide)
  ultimately have a: "y ^ 4 \<le> 9763 / 10000" by linarith
  have "(y ^ 4) ^ 10 \<le> (9763 / 10000) ^ 10"
    using a assms by (intro power_mono) simp_all
  moreover have "(9763 / 10000) ^ 10 \<le> (7868 / 10000 :: real)"
    by (simp add: power_divide)
  ultimately have b: "(y ^ 4) ^ 10 \<le> 7868 / 10000" by linarith
  have "((y ^ 4) ^ 10) ^ 10 \<le> (7868 / 10000) ^ 10"
    using b assms by (intro power_mono) simp_all
  moreover have "(7868 / 10000) ^ 10 < (1 / 10 :: real)"
    by (simp add: power_divide)
  ultimately show ?thesis
    unfolding power400_split by linarith
qed

lemma powr_400_upper: "(10::real) powr (1/400) < 1006 / 1000"
proof (rule ccontr)
  assume "\<not> (10::real) powr (1/400) < 1006 / 1000"
  then have "1006 / 1000 \<le> (10::real) powr (1/400)" by simp
  from power400_large [OF this] show False
    unfolding root400_power by simp
qed

lemma powr_400_lower: "994 / 1000 < (10::real) powr (-1/400)"
proof (rule ccontr)
  assume "\<not> 994 / 1000 < (10::real) powr (-1/400)"
  then have "(10::real) powr (-1/400) \<le> 994 / 1000" by simp
  from power400_small [OF _ this] show False
    unfolding inv_root400_power by simp
qed


lemma db_round_trip_main:
  assumes g: "1 / 10000 < g" "g \<le> 1"
  shows "\<exists>g'. commitDbChange (getDbValue g) = Some g' \<and> \<bar>g' - g\<bar> \<le> 6 / 1000 * g"
proof -
  define d where "d = 20 * log 10 g"
  define d' where "d' = toFixed1 d"
  define e where "e = (d' - d) / 20"
  have gpos: "0 < g" using g by simp
  have "log 10 g \<le> 0" using g gpos by simp
  then have d0: "d \<le> 0" by (simp add: d_def)
  have d'0: "d' \<le> 0" unfolding d'_def using d0 by (rule toFixed1_nonpos)
  have e1: "e \<le> 1 / 400" and e2: "- 1 / 400 \<le> e"
    using toFixed1_near [of d] by (simp_all add: e_def d'_def)
  have gd: "10 powr (d / 20) = g"
    using gpos by (simp add: d_def)
  have "10 powr (d' / 20) = 10 powr (d / 20 + e)"
    by (simp add: e_def field_simps)
  also have "\<dots> = g * 10 powr e"
    by (simp add: powr_add gd)
  finally have g': "10 powr (d' / 20) = g * 10 powr e" .
  have "10 powr e \<le> (10::real) powr (1 / 400)"
    using e1 by (intro powr_mono) simp_all
  with powr_400_upper have k1: "10 powr e \<le> 1006 / 1000" by linarith
  have "(10::real) powr (- 1 / 400) \<le> 10 powr e"
    using e2 by (intro powr_mono) simp_all
  with powr_400_lower have k2: "994 / 1000 \<le> 10 powr e" by linarith
  have "g * 10 powr e - g = g * (10 powr e - 1)" by (simp add: algebra_simps)
  moreover have "\<bar>10 powr e - 1\<bar> \<le> 6 / 1000" using k1 k2 by linarith
  ultimately have bound: "\<bar>g * 10 powr e - g\<bar> \<le> 6 / 1000 * g"
    using gpos by (simp add: abs_mult)
  have le1: "10 powr (d' / 20) \<le> (1::real)"
    using powr_mono [of "d' / 20" 0 10] d'0 by simp
  have c: "commitDbChange (getDbValue g) = Some (10 powr (d' / 20))"
    using g d'0 le1
    by (simp add: getDbValue_def commitDbChange_def Let_def d_def d'_def)
  show ?thesis unfolding c g' using bound by simp
qed

text \<open>
  Claim C7 fails as stated: the displayed value has one decimal, so the round trip moves
  a gain by up to about 0.58 per cent. At \<open>g = 1/2\<close> the display is \<open>-6.0\<close> dB and
  committing it gives \<open>10 powr (-3/10)\<close>, which is more than 0.001 above 1/2.
\<close>

theorem db_round_trip_counterexample:
  "commitDbChange (getDbValue (1/2)) = Some (10 powr (-3/10)) \<and>
   \<not> \<bar>10 powr (-3/10) - 1/2\<bar> \<le> (1/1000 :: real)"
proof -
  have "commitDbChange (getDbValue (1/2)) = Some (10 powr (-3/10))"
    using powr_tenth_upper
    by (simp add: getDbValue_half commitDbChange_def Let_def)
  moreover have "\<not> \<bar>10 powr (-3/10) - 1/2\<bar> \<le> (1/1000 :: real)"
    using powr_tenth_lower by simp
  ultimately show ?thesis by blast
qed

text \<open>
  Claim C7, amended. For a gain \<open>g\<close> with \<open>0.0001 < g \<le> 1\<close>, converting it to the
  displayed dB value and committing that value returns a gain within \<open>0.006 * g\<close> of
  \<open>g\<close>. A gain of at most 0.0001 is displayed as the sentinel \<^verbatim>\<open>'-inf'\<close>, in
  particular the gain 0, and committing the sentinel yields exactly 0.
\<close>

theorem db_round_trip:
  "(1 / 10000 < g \<and> g \<le> 1 \<longrightarrow>
      (\<exists>g'. commitDbChange (getDbValue g) = Some g' \<and> \<bar>g' - g\<bar> \<le> 6 / 1000 * g)) \<and>
   (g \<le> 1 / 10000 \<longrightarrow>
      getDbValue g = MinusInf \<and> commitDbChange (getDbValue g) = Some 0) \<and>
   getDbValue 0 = MinusInf \<and> commitDbChange MinusInf = Some 0"
proof -
  have a: "commitDbChange MinusInf = Some 0"
    by (simp add: commitDbChange_def)
  have b: "getDbValue x = MinusInf" if "x \<le> 1 / 10000" for x
    using that by (simp add: getDbValue_def)
  from db_round_trip_main a b show ?thesis by simp
qed

theorem db_round_trip_witness:
  "(\<exists>g'. commitDbChange (getDbValue (1/2)) = Some g' \<and> \<bar>g' - 1/2\<bar> \<le> 3 / 1000) \<and>
   commitDbChange (getDbValue (1/20000)) = Some 0"
  using db_round_trip [of "1/2"] db_round_trip [of "1/20000"] by simp

section \<open>The codec: bytes, samples and the container\<close>

lemma le_value_bytes16: "le_value (bytes16 w) = unat w"
proof -
  have "unat (ucast w :: 8 word) = unat w mod 256"
    by (simp add: unsigned_ucast_eq take_bit_eq_mod)
  moreover have "unat (ucast (drop_bit 8 w) :: 8 word) = unat w div 256"
    using unsigned_less [of w, where ?'a = nat]
    by (simp add: unsigned_ucast_eq unat_drop_bit_eq take_bit_eq_mod drop_bit_eq_div unat_div_distrib)
  ultimately show ?thesis by (simp add: bytes16_def)
qed

lemma le_value_bytes32: "le_value (bytes32 w) = unat w"
proof -
  define n where "n = unat w"
  define q1 where "q1 = n div 256"
  define q2 where "q2 = q1 div 256"
  define q3 where "q3 = q2 div 256"
  have d2: "x div 65536 = x div 256 div 256" for x :: nat
    using div_mult2_eq [of x 256 256] by simp
  have d3: "x div 16777216 = x div 256 div 256 div 256" for x :: nat
    using div_mult2_eq [of x 65536 256] by (simp add: d2)
  have m: "unat (ucast w :: 8 word) = n mod 256"
    "unat (ucast (drop_bit 8 w) :: 8 word) = q1 mod 256"
    "unat (ucast (drop_bit 16 w) :: 8 word) = q2 mod 256"
    "unat (ucast (drop_bit 24 w) :: 8 word) = q3 mod 256"
    by (simp_all add: unsigned_ucast_eq unat_drop_bit_eq take_bit_eq_mod drop_bit_eq_div
        unat_div_distrib n_def q1_def q2_def q3_def d2 d3)
  have "n < 4294967296" using unsigned_less [of w, where ?'a = nat] by (simp add: n_def)
  then have "n div 16777216 < 256" by simp
  then have "q3 < 256" by (simp add: q3_def q2_def q1_def d3)
  then have r3: "q3 mod 256 = q3" by simp
  define a0 where "a0 = n mod 256"
  define a1 where "a1 = q1 mod 256"
  define a2 where "a2 = q2 mod 256"
  have r2: "q2 = 256 * q3 + a2" by (simp add: q3_def a2_def)
  have r1: "q1 = 256 * q2 + a1" by (simp add: q2_def a1_def)
  have r0: "n = 256 * q1 + a0" by (simp add: q1_def a0_def)
  have "le_value (bytes32 w) = a0 + 256 * (a1 + 256 * (a2 + 256 * q3))"
    unfolding bytes32_def le_value.simps m r3 a0_def a1_def a2_def by simp
  also have "\<dots> = n" unfolding r0 r1 r2 by simp
  finally show ?thesis by (simp add: n_def)
qed

lemma length_bytes [simp]: "length (bytes16 v) = 2" "length (bytes32 w) = 4"
  by (simp_all add: bytes16_def bytes32_def)

lemma samples16_bytes: "samples16 (concat (map bytes16 ws)) = ws"
proof (induction ws)
  case Nil
  then show ?case by simp
next
  case (Cons w ws)
  have "word_of_nat (le_value (bytes16 w)) = w"
    by (simp add: le_value_bytes16)
  then show ?case using Cons by (simp add: bytes16_def)
qed

lemma sint_pcm16:
  "sint (pcm16 s) = (if s < 0 then \<lceil>max (-1) s * 32768\<rceil> else \<lfloor>min 1 s * 32767\<rfloor>)"
proof -
  define v where "v = (if max (-1) (min 1 s) < 0 then max (-1) (min 1 s) * 32768
                        else max (-1) (min 1 s) * 32767)"
  define k where "k = (if v < 0 then \<lceil>v\<rceil> else \<lfloor>v\<rfloor>)"
  have p: "pcm16 s = word_of_int k"
    by (simp add: pcm16_def clamp_unit_def scale_pcm_def ToInt16_def v_def k_def)
  have vb: "- 32768 \<le> v" "v \<le> 32767"
    by (auto simp: v_def max_def min_def)
  have kb: "- 32768 \<le> k" "k \<le> 32767"
    using vb by (auto simp: k_def le_floor_iff ceiling_le_iff floor_le_iff le_ceiling_iff)
  have "sint (word_of_int k :: 16 word) = k"
    using kb by (simp add: signed_of_int signed_take_bit_int_eq_self)
  moreover have "k = (if s < 0 then \<lceil>max (-1) s * 32768\<rceil> else \<lfloor>min 1 s * 32767\<rfloor>)"
    by (auto simp: k_def v_def max_def min_def)
  ultimately show ?thesis by (simp add: p)
qed

lemma store_bytes_Some:
  "off + length bs \<le> length view \<Longrightarrow>
   store_bytes view off bs = Some (take off view @ bs @ drop (off + length bs) view)"
  by (simp add: store_bytes_def)

lemma writeString_bytes:
  "off + length s \<le> length view \<Longrightarrow>
   writeString view off s = Some (take off view @ ascii s @ drop (off + length s) view)"
proof (induction s arbitrary: view off)
  case Nil
  then show ?case by (simp add: ascii_def)
next
  case (Cons c cs)
  let ?b = "word_of_nat (of_char c) :: 8 word"
  let ?v = "take off view @ [?b] @ drop (off + 1) view"
  from Cons.prems have s: "setUint8 view off (of_char c) = Some ?v"
    by (simp add: setUint8_def store_bytes_def)
  have l: "length ?v = length view" using Cons.prems by simp
  have "off + 1 + length cs \<le> length ?v" using Cons.prems l by simp
  from Cons.IH [OF this]
  have "writeString ?v (off + 1) cs =
          Some (take (off + 1) ?v @ ascii cs @ drop (off + 1 + length cs) ?v)" .
  moreover have "take (off + 1) ?v = take off view @ [?b]"
    using Cons.prems by simp
  moreover have "drop (off + 1 + length cs) ?v = drop (off + 1 + length cs) view"
    using Cons.prems by (simp add: ac_simps)
  ultimately show ?case using s by (simp add: ascii_def)
qed

lemma floatTo16BitPCM_bytes:
  "off + 2 * length input \<le> length view \<Longrightarrow>
   floatTo16BitPCM view off input =
     Some (take off view @
           concat (map (\<lambda>x. bytes16 (ToInt16 (scale_pcm (clamp_unit x)))) input) @
           drop (off + 2 * length input) view)"
proof (induction input arbitrary: view off)
  case Nil
  then show ?case by simp
next
  case (Cons x xs)
  let ?b = "bytes16 (ToInt16 (scale_pcm (clamp_unit x)))"
  let ?v = "take off view @ ?b @ drop (off + 2) view"
  from Cons.prems have s: "setInt16 view off (scale_pcm (clamp_unit x)) = Some ?v"
    by (simp add: setInt16_def store_bytes_def)
  have l: "length ?v = length view" using Cons.prems by simp
  have "off + 2 + 2 * length xs \<le> length ?v" using Cons.prems l by simp
  from Cons.IH [OF this]
  have "floatTo16BitPCM ?v (off + 2) xs =
          Some (take (off + 2) ?v @
                concat (map (\<lambda>x. bytes16 (ToInt16 (scale_pcm (clamp_unit x)))) xs) @
                drop (off + 2 + 2 * length xs) ?v)" .
  moreover have "take (off + 2) ?v = take off view @ ?b"
    using Cons.prems by simp
  moreover have "drop (off + 2 + 2 * length xs) ?v = drop (off + 2 + 2 * length xs) view"
    using Cons.prems by (simp add: ac_simps)
  ultimately show ?case using s by (simp add: Let_def add.assoc)
qed

lemma length_interleaved:
  "length ls = length rs \<Longrightarrow> length (interleaved ls rs) = 2 * length ls"
  by (induction ls rs rule: list_induct2) simp_all

lemma interleaved_nth:
  "length ls = length rs \<Longrightarrow> i < 2 * length ls \<Longrightarrow>
   interleaved ls rs ! i = (if even i then ls ! (i div 2) else rs ! (i div 2))"
proof (induction ls rs arbitrary: i rule: list_induct2)
  case Nil
  then show ?case by simp
next
  case (Cons l ls r rs)
  show ?case
  proof (cases i)
    case 0
    then show ?thesis by simp
  next
    case (Suc j)
    show ?thesis
    proof (cases j)
      case 0
      with Suc show ?thesis by simp
    next
      case (Suc m)
      with \<open>i = Suc j\<close> Cons.prems have "m < 2 * length ls" by simp
      from Cons.IH [OF this] show ?thesis
        using Suc \<open>i = Suc j\<close> by simp
    qed
  qed
qed

lemma interleave_loop_nth:
  assumes "length inputL = n" "length inputR = n" "length result = 2 * n" "k \<le> n"
  shows "length (interleave_loop inputL inputR (2 * n) result (2 * k) k) = 2 * n \<and>
         (\<forall>i<2 * n. interleave_loop inputL inputR (2 * n) result (2 * k) k ! i =
            (if i < 2 * k then result ! i
             else if even i then Num (inputL ! (i div 2)) else Num (inputR ! (i div 2))))"
  using assms
proof (induction "n - k" arbitrary: k result)
  case 0
  then have "k = n" by simp
  then show ?case
    using "0.prems" by (subst interleave_loop.simps, subst interleave_loop.simps) simp
next
  case (Suc d)
  then have kn: "k < n" by simp
  let ?r = "result[2 * k := Num (inputL ! k), 2 * k + 1 := Num (inputR ! k)]"
  have step: "interleave_loop inputL inputR (2 * n) result (2 * k) k =
              interleave_loop inputL inputR (2 * n) ?r (2 * Suc k) (Suc k)"
    using kn Suc.prems
    by (subst interleave_loop.simps) (simp add: f32_read_def f32_write_def)
  have d: "d = n - Suc k" using Suc.hyps(2) by simp
  have lr: "length ?r = 2 * n" using Suc.prems by simp
  have sk: "Suc k \<le> n" using kn by simp
  from Suc.hyps(1) [OF d Suc.prems(1) Suc.prems(2) lr sk]
  have ih: "length (interleave_loop inputL inputR (2 * n) ?r (2 * Suc k) (Suc k)) = 2 * n"
    "\<And>i. i < 2 * n \<Longrightarrow> interleave_loop inputL inputR (2 * n) ?r (2 * Suc k) (Suc k) ! i =
        (if i < 2 * Suc k then ?r ! i
         else if even i then Num (inputL ! (i div 2)) else Num (inputR ! (i div 2)))"
    by simp_all
  show ?case
  proof (intro conjI allI impI)
    show "length (interleave_loop inputL inputR (2 * n) result (2 * k) k) = 2 * n"
      unfolding step by (rule ih(1))
  next
    fix i assume i: "i < 2 * n"
    have r: "?r ! i = (if i = 2 * k + 1 then Num (inputR ! k)
                       else if i = 2 * k then Num (inputL ! k) else result ! i)"
      using i Suc.prems by (simp add: nth_list_update)
    have e: "i = 2 * k \<Longrightarrow> even i \<and> i div 2 = k" "i = 2 * k + 1 \<Longrightarrow> odd i \<and> i div 2 = k"
      by simp_all
    show "interleave_loop inputL inputR (2 * n) result (2 * k) k ! i =
            (if i < 2 * k then result ! i
             else if even i then Num (inputL ! (i div 2)) else Num (inputR ! (i div 2)))"
    proof -
      consider "i < 2 * k" | "i = 2 * k" | "i = 2 * k + 1" | "2 * k + 2 \<le> i"
        by linarith
      then show ?thesis
      proof cases
        case 1
        then show ?thesis unfolding step ih(2) [OF i] r by simp
      next
        case 2
        then show ?thesis unfolding step ih(2) [OF i] r by simp
      next
        case 3
        then show ?thesis unfolding step ih(2) [OF i] r by simp
      next
        case 4
        then show ?thesis unfolding step ih(2) [OF i] r by simp
      qed
    qed
  qed
qed

lemma interleave_equal_lengths:
  assumes "length inputL = n" and "length inputR = n"
  shows "interleave inputL inputR = map Num (interleaved inputL inputR)"
proof -
  let ?z = "replicate (2 * n) (Num 0)"
  let ?res = "interleave_loop inputL inputR (2 * n) ?z (2 * 0) 0"
  have eq: "length inputL = length inputR" using assms by simp
  have lz: "length ?z = 2 * n" by simp
  have z0: "(0::nat) \<le> n" by simp
  note loop = interleave_loop_nth [OF assms lz z0]
  have a: "length ?res = 2 * n" using loop by blast
  have b: "?res ! i = (if even i then Num (inputL ! (i div 2)) else Num (inputR ! (i div 2)))"
    if "i < 2 * n" for i
    using loop that by simp
  have li: "length (interleaved inputL inputR) = 2 * n"
    using length_interleaved [OF eq] assms by simp
  have "interleave inputL inputR = ?res"
    unfolding interleave_def Let_def assms by (simp add: mult_2)
  also have "?res = map Num (interleaved inputL inputR)"
  proof (rule nth_equalityI)
    show "length ?res = length (map Num (interleaved inputL inputR))"
      using a li by simp
  next
    fix i
    assume "i < length ?res"
    then have i: "i < 2 * n" using a by simp
    then have i': "i < 2 * length inputL" using assms by simp
    show "?res ! i = map Num (interleaved inputL inputR) ! i"
      using b [OF i] interleaved_nth [OF eq i'] li i by simp
  qed
  finally show ?thesis .
qed

lemma encodeWAV_16:
  "encodeWAV float32 samples 1 sampleRate numChannels 16 =
     Some \<lparr>bytes = wav_header 1 numChannels sampleRate 16 (length samples * 2) @
                    concat (map (\<lambda>x. bytes16 (ToInt16 (scale_pcm (clamp_unit x)))) samples),
           mime = ''audio/wav''\<rparr>"
  by (simp add: encodeWAV_def Let_def writeString_bytes setUint32_def setUint16_def
      store_bytes_Some floatTo16BitPCM_bytes wav_header_def ascii_def
      del: writeString.simps)

lemma concat_pcm16:
  "concat (map (\<lambda>x. bytes16 (ToInt16 (scale_pcm (clamp_unit x)))) (map Num xs)) =
   concat (map bytes16 (map pcm16 xs))"
  by (simp add: pcm16_def comp_def)

lemma audioBufferToWav_stereo:
  assumes "channelData buffer = [L, R]" and "length L = length R"
  shows "audioBufferToWav float32 buffer False =
     Some \<lparr>bytes = wav_header 1 2 (buffer_sampleRate buffer) 16 (4 * length L) @
                    concat (map bytes16 (map pcm16 (interleaved L R))),
           mime = ''audio/wav''\<rparr>"
proof -
  have ch: "numberOfChannels buffer = 2" "getChannelData buffer 0 = L"
    "getChannelData buffer (Suc 0) = R"
    using assms(1) by (simp_all add: numberOfChannels_def getChannelData_def)
  have il: "interleave L R = map Num (interleaved L R)"
    by (rule interleave_equal_lengths [OF refl assms(2) [symmetric]])
  have len: "length (map Num (interleaved L R)) * 2 = 4 * length L"
    using length_interleaved [OF assms(2)] by simp
  have "audioBufferToWav float32 buffer False =
          encodeWAV float32 (map Num (interleaved L R)) 1 (buffer_sampleRate buffer) 2 16"
    by (simp add: audioBufferToWav_def ch il)
  also have "\<dots> =
     Some \<lparr>bytes = wav_header 1 2 (buffer_sampleRate buffer) 16
                      (length (map Num (interleaved L R)) * 2) @
                    concat (map (\<lambda>x. bytes16 (ToInt16 (scale_pcm (clamp_unit x))))
                              (map Num (interleaved L R))),
           mime = ''audio/wav''\<rparr>"
    by (rule encodeWAV_16)
  finally show ?thesis
    unfolding len concat_pcm16 .
qed

lemma length_wav_header [simp]: "length (wav_header f c sr b d) = 44"
  by (simp add: wav_header_def ascii_def)

lemma unat_word16_of_nat: "unat (word_of_nat n :: 16 word) = n mod 65536"
  by (simp add: unat_of_nat)

lemma unat_word32_of_nat: "unat (word_of_nat n :: 32 word) = n mod 4294967296"
  by (simp add: unat_of_nat)

lemma wav_header_fields:
  "le_value (take 2 (drop 20 (wav_header f c sr b d @ data))) = f mod 65536"
  "le_value (take 2 (drop 22 (wav_header f c sr b d @ data))) = c mod 65536"
  "le_value (take 4 (drop 24 (wav_header f c sr b d @ data))) = sr mod 4294967296"
  "le_value (take 4 (drop 28 (wav_header f c sr b d @ data))) =
     (sr * (c * (b div 8))) mod 4294967296"
  "le_value (take 2 (drop 32 (wav_header f c sr b d @ data))) = (c * (b div 8)) mod 65536"
  "le_value (take 2 (drop 34 (wav_header f c sr b d @ data))) = b mod 65536"
  "le_value (take 4 (drop 40 (wav_header f c sr b d @ data))) = d mod 4294967296"
  unfolding wav_header_def Let_def ascii_def
  by (simp_all add: le_value_bytes16 le_value_bytes32 unat_word16_of_nat unat_word32_of_nat
      del: le_value.simps of_nat_mult)

lemma decode_error:
  assumes "- 1 \<le> s" and "s \<le> 1"
  shows "\<bar>decode_sample (pcm16 s) - s\<bar> < 2 / 32768 \<and>
         (s < 0 \<longrightarrow> \<bar>decode_sample (pcm16 s) - s\<bar> < 1 / 32768)"
proof (cases "s < 0")
  case True
  define k where "k = \<lceil>s * 32768\<rceil>"
  have "sint (pcm16 s) = k"
    using assms True by (simp add: sint_pcm16 max_def k_def)
  then have d: "decode_sample (pcm16 s) = real_of_int k / 32768"
    by (simp add: decode_sample_def)
  have "s * 32768 \<le> real_of_int k" "real_of_int k < s * 32768 + 1"
    unfolding k_def by linarith+
  then have "\<bar>real_of_int k / 32768 - s\<bar> < 1 / 32768"
    by (simp add: abs_less_iff field_simps)
  then show ?thesis unfolding d by simp
next
  case False
  define k where "k = \<lfloor>s * 32767\<rfloor>"
  have "sint (pcm16 s) = k"
    using assms False by (simp add: sint_pcm16 min_def k_def)
  then have d: "decode_sample (pcm16 s) = real_of_int k / 32768"
    by (simp add: decode_sample_def)
  have "real_of_int k \<le> s * 32767" "s * 32767 < real_of_int k + 1"
    unfolding k_def by linarith+
  then have "\<bar>real_of_int k / 32768 - s\<bar> < 2 / 32768"
    using assms False by (simp add: abs_less_iff field_simps)
  then show ?thesis unfolding d using False by simp
qed

lemma length_concat_bytes16: "length (concat (map bytes16 ws)) = 2 * length ws"
  by (induction ws) simp_all

lemma map_index: "map (\<lambda>k. f (xs ! k)) [0..<length xs] = map f xs"
  by (rule nth_equalityI) simp_all

lemma deinterleave:
  assumes "length L = length R"
  shows "map (\<lambda>k. map g (interleaved L R) ! (k * 2 + 0)) [0..<length L] = map g L"
    and "map (\<lambda>k. map g (interleaved L R) ! (k * 2 + 1)) [0..<length L] = map g R"
proof -
  have l: "length (interleaved L R) = 2 * length L"
    by (rule length_interleaved [OF assms])
  have a: "map g (interleaved L R) ! (k * 2) = g (L ! k)" if "k < length L" for k
    using that l interleaved_nth [OF assms, of "k * 2"] by simp
  have b: "map g (interleaved L R) ! Suc (k * 2) = g (R ! k)" if "k < length R" for k
    using that l assms interleaved_nth [OF assms, of "Suc (k * 2)"] by simp
  show "map (\<lambda>k. map g (interleaved L R) ! (k * 2 + 0)) [0..<length L] = map g L"
    by (rule nth_equalityI) (simp_all add: a)
  show "map (\<lambda>k. map g (interleaved L R) ! (k * 2 + 1)) [0..<length L] = map g R"
    using assms by (intro nth_equalityI) (simp_all add: b)
qed

lemma decodeWAV_stereo:
  assumes eq: "length L = length R" and small: "4 * length L < 4294967296"
  shows "decodeWAV (wav_header 1 2 sr 16 (4 * length L) @
                    concat (map bytes16 (map pcm16 (interleaved L R)))) =
         Some [map (\<lambda>s. decode_sample (pcm16 s)) L, map (\<lambda>s. decode_sample (pcm16 s)) R]"
proof -
  let ?data = "concat (map bytes16 (map pcm16 (interleaved L R)))"
  let ?file = "wav_header 1 2 sr 16 (4 * length L) @ ?data"
  let ?g = "\<lambda>s. decode_sample (pcm16 s)"
  have ld: "length ?data = 4 * length L"
    using length_interleaved [OF eq] length_concat_bytes16 [of "map pcm16 (interleaved L R)"]
    by simp
  have ch: "le_value (take 2 (drop 22 ?file)) = 2"
    by (simp only: wav_header_fields) simp
  have dl: "le_value (take 4 (drop 40 ?file)) = 4 * length L"
    using small by (simp only: wav_header_fields) simp
  have data: "take (4 * length L) (drop 44 ?file) = ?data"
    using ld by simp
  have s: "map decode_sample (samples16 ?data) = map ?g (interleaved L R)"
    using samples16_bytes [of "map pcm16 (interleaved L R)"] by simp
  have fr: "length (map ?g (interleaved L R)) div 2 = length L"
    using length_interleaved [OF eq] by simp
  have upt2: "[0..<2] = [0, 1]" by (simp add: upt_conv_Cons)
  have "decodeWAV ?file =
     Some (map (\<lambda>c. map (\<lambda>k. map ?g (interleaved L R) ! (k * 2 + c)) [0..<length L]) [0..<2])"
    unfolding decodeWAV_def Let_def ch dl data s fr by simp
  also have "\<dots> = Some [map ?g L, map ?g R]"
    unfolding upt2 list.map deinterleave [OF eq] ..
  finally show ?thesis .
qed

lemma pcm16_values:
  "pcm16 (1/2) = 16383" "pcm16 (- (1/2)) = -16384" "pcm16 (1/4) = 8191" "pcm16 (- (1/4)) = -8192"
  "pcm16 1 = 32767" "pcm16 (-2) = -32768" "pcm16 (65535/65536) = 32766"
  "pcm16 (- (131071/4294967296)) = 0" "pcm16 (131074/4294967296) = 0"
  by (simp_all add: pcm16_def clamp_unit_def scale_pcm_def ToInt16_def)

lemma floatTo16BitPCM_pcm16:
  "off + 2 * length input \<le> length view \<Longrightarrow>
   floatTo16BitPCM view off (map Num input) =
     Some (take off view @ concat (map bytes16 (map pcm16 input)) @
           drop (off + 2 * length input) view)"
  using floatTo16BitPCM_bytes [of off "map Num input" view]
  unfolding concat_pcm16 by simp

lemma worker_convert_fst: "fst (worker_convert samplesL samplesR) = map pcm16 samplesL"
  unfolding worker_convert_def Let_def fst_conv
  by (rule nth_equalityI) (simp_all add: f32_read_def pcm16_def)

lemma worker_convert_snd_None: "snd (worker_convert samplesL None) = map pcm16 samplesL"
  unfolding worker_convert_def Let_def snd_conv
  by (rule nth_equalityI) (simp_all add: f32_read_def pcm16_def)

lemma worker_convert_snd_Some:
  "length samplesR = length samplesL \<Longrightarrow>
   snd (worker_convert samplesL (Some samplesR)) = map pcm16 samplesR"
  unfolding worker_convert_def Let_def snd_conv
  by (rule nth_equalityI) (simp_all add: f32_read_def pcm16_def)

lemma mp3_message_mono:
  "numberOfChannels buffer \<le> 1 \<Longrightarrow>
   mp3_message buffer =
     (numberOfChannels buffer, buffer_sampleRate buffer, getChannelData buffer 0,
      getChannelData buffer 0)"
  by (simp add: mp3_message_def Let_def)

lemma mp3_message_stereo:
  "1 < numberOfChannels buffer \<Longrightarrow>
   mp3_message buffer =
     (numberOfChannels buffer, buffer_sampleRate buffer, getChannelData buffer 0,
      getChannelData buffer 1)"
  by (simp add: mp3_message_def Let_def)

lemma wav_round_trip:
  assumes "channelData buffer = [L, R]" and "length L = length R"
    and "4 * length L < 4294967296"
  shows "map_option (\<lambda>blob. decodeWAV (bytes blob)) (audioBufferToWav float32 buffer False) =
         Some (Some [map (\<lambda>s. decode_sample (pcm16 s)) L,
                     map (\<lambda>s. decode_sample (pcm16 s)) R])"
  unfolding audioBufferToWav_stereo [OF assms(1,2)] option.map Blob.simps
    decodeWAV_stereo [OF assms(2,3)] ..

text \<open>
  A rendered mix is a stereo buffer with channels of equal length, so the lossless export
  of a rendered mix always yields a blob: the RangeError branch is never taken.
\<close>

lemma startRendering_stereo:
  "\<exists>L R. channelData (startRendering 2 len sr mv srcs) = [L, R] \<and>
         length L = len \<and> length R = len"
proof -
  have "[0..<2] = [0, 1]" by (simp add: upt_conv_Cons)
  then show ?thesis by (simp add: startRendering_def)
qed

lemma mixdown_stereo:
  assumes "mixdown tracks mv = (tr, Inr rendered)"
  shows "\<exists>L R. channelData rendered = [L, R] \<and> length L = length R"
proof -
  from assms obtain len srcs where "rendered = startRendering 2 len 44100 mv srcs"
    by (auto simp: mixdown_def Let_def split: if_splits prod.splits sum.splits)
  with startRendering_stereo [of len 44100 mv srcs] show ?thesis by auto
qed

lemma bounce_wav_encodes:
  assumes "mixdown tracks mv = (tr, Inr rendered)"
  shows "\<exists>blob. bounceTracks lib float32 tracks mv wav = (tr @ [Encoded wav], Inr blob)"
proof -
  from mixdown_stereo [OF assms] obtain L R where
    "channelData rendered = [L, R]" "length L = length R" by blast
  from audioBufferToWav_stereo [OF this, of float32] show ?thesis
    using assms by (simp add: bounceTracks_def)
qed

section \<open>The codec: the claims\<close>

text \<open>
  Claim C5. For a stereo buffer (two channels of equal length) the lossless artifact is
  a header of exactly 44 bytes followed by the samples. The header is the RIFF/WAVE
  header of the specification: its fields are the format tag 1, the channel count 2, the
  sample rate, the byte rate \<open>sampleRate * blockAlign\<close>, the block align
  \<open>2 channels * 2 bytes = 4\<close>, 16 bits per sample and the data length
  \<open>sampleCount * 2\<close>, each reduced to the width of its field. The data is the two
  channels interleaved L, R, L, R, ..., two bytes per sample. Every field and sample
  is written lowest byte first.
\<close>

theorem wav_artifact_layout:
  assumes "channelData buffer = [L, R]" and "length L = length R"
  shows "\<exists>header data.
     audioBufferToWav float32 buffer False = Some \<lparr>bytes = header @ data, mime = ''audio/wav''\<rparr> \<and>
     length header = 44 \<and>
     header = wav_header 1 2 (buffer_sampleRate buffer) 16 (length (interleaved L R) * 2) \<and>
     le_value (take 2 (drop 20 header)) = 1 \<and>
     le_value (take 2 (drop 22 header)) = 2 \<and>
     le_value (take 4 (drop 24 header)) = buffer_sampleRate buffer mod 4294967296 \<and>
     le_value (take 4 (drop 28 header)) = (buffer_sampleRate buffer * 4) mod 4294967296 \<and>
     le_value (take 2 (drop 32 header)) = 4 \<and>
     le_value (take 2 (drop 34 header)) = 16 \<and>
     le_value (take 4 (drop 40 header)) = (length (interleaved L R) * 2) mod 4294967296 \<and>
     data = concat (map bytes16 (map pcm16 (interleaved L R))) \<and>
     le_value (bytes16 w16) = unat w16 \<and> le_value (bytes32 w32) = unat w32"
proof -
  let ?h = "wav_header 1 2 (buffer_sampleRate buffer) 16 (4 * length L)"
  have l: "length (interleaved L R) * 2 = 4 * length L"
    using length_interleaved [OF assms(2)] by simp
  have f: "le_value (take 2 (drop 20 ?h)) = 1"
    "le_value (take 2 (drop 22 ?h)) = 2"
    "le_value (take 4 (drop 24 ?h)) = buffer_sampleRate buffer mod 4294967296"
    "le_value (take 4 (drop 28 ?h)) = (buffer_sampleRate buffer * 4) mod 4294967296"
    "le_value (take 2 (drop 32 ?h)) = 4"
    "le_value (take 2 (drop 34 ?h)) = 16"
    "le_value (take 4 (drop 40 ?h)) = (4 * length L) mod 4294967296"
    using wav_header_fields [of 1 2 "buffer_sampleRate buffer" 16 "4 * length L" "[]"]
    by simp_all
  show ?thesis
    unfolding l
    using audioBufferToWav_stereo [OF assms, of float32] f le_value_bytes16 le_value_bytes32
    by (intro exI [of _ ?h] exI [of _ "concat (map bytes16 (map pcm16 (interleaved L R)))"])
      (simp del: le_value.simps)
qed

theorem wav_artifact_layout_witness:
  "audioBufferToWav (\<lambda>x. 0) \<lparr>buffer_sampleRate = 44100, channelData = [[1/2], [- (1/2)]]\<rparr> False =
     Some \<lparr>bytes =
       [0x52, 0x49, 0x46, 0x46, 40, 0, 0, 0, 0x57, 0x41, 0x56, 0x45, 0x66, 0x6D, 0x74, 0x20,
        16, 0, 0, 0, 1, 0, 2, 0, 0x44, 0xAC, 0, 0, 0x10, 0xB1, 0x02, 0, 4, 0, 16, 0,
        0x64, 0x61, 0x74, 0x61, 4, 0, 0, 0, 0xFF, 0x3F, 0, 0xC0],
       mime = ''audio/wav''\<rparr>"
proof -
  let ?b = "\<lparr>buffer_sampleRate = 44100, channelData = [[1/2], [- (1/2) :: real]]\<rparr>"
  have h: "wav_header (Suc 0) 2 44100 16 4 =
     [0x52, 0x49, 0x46, 0x46, 40, 0, 0, 0, 0x57, 0x41, 0x56, 0x45, 0x66, 0x6D, 0x74, 0x20,
      16, 0, 0, 0, 1, 0, 2, 0, 0x44, 0xAC, 0, 0, 0x10, 0xB1, 0x02, 0, 4, 0, 16, 0,
      0x64, 0x61, 0x74, 0x61, 4, 0, 0, 0]"
    by (simp add: wav_header_def ascii_def bytes32_def bytes16_def drop_bit_eq_div)
  have d: "bytes16 16383 = [0xFF, 0x3F]" "bytes16 (-16384) = [0, 0xC0]"
    by (simp_all add: bytes16_def drop_bit_eq_div)
  from wav_artifact_layout [of ?b "[1/2]" "[- (1/2)]" "\<lambda>x. 0"]
  obtain header data where
    "audioBufferToWav (\<lambda>x. 0) ?b False = Some \<lparr>bytes = header @ data, mime = ''audio/wav''\<rparr>"
    "header = wav_header 1 2 44100 16 4"
    "data = concat (map bytes16 (map pcm16 (interleaved [1/2] [- (1/2)])))"
    by auto
  then show ?thesis
    by (simp add: h d pcm16_values)
qed

text \<open>
  Claim C4 fails in its error bound. The encoder truncates, and it scales non-negative
  samples by 32767 while a decoder divides by 32768: the sample \<open>65535/65536\<close> is stored
  as 32766 and decoded as \<open>32766/32768\<close>, which is \<open>3/65536\<close> away, more than
  \<open>1/32768\<close>. No other decoder does better: two samples more than \<open>2/32768\<close> apart
  are both stored as 0, so no decoded value is within \<open>1/32768\<close> of both.
\<close>

theorem pcm_round_trip_counterexample:
  "map_option (\<lambda>blob. decodeWAV (bytes blob))
     (audioBufferToWav (\<lambda>x. 0)
        \<lparr>buffer_sampleRate = 44100, channelData = [[65535/65536], [65535/65536]]\<rparr> False) =
     Some (Some [[32766/32768], [32766/32768]]) \<and>
   \<not> \<bar>32766/32768 - 65535/65536\<bar> \<le> (1/32768 :: real) \<and>
   pcm16 (- (131071/4294967296)) = pcm16 (131074/4294967296) \<and>
   2 * (1/32768) < 131074/4294967296 - (- (131071/4294967296) :: real)"
proof -
  let ?b = "\<lparr>buffer_sampleRate = 44100, channelData = [[65535/65536 :: real], [65535/65536]]\<rparr>"
  have a: "map_option (\<lambda>blob. decodeWAV (bytes blob)) (audioBufferToWav (\<lambda>x. 0) ?b False) =
        Some (Some [[32766/32768], [32766/32768]])"
    using wav_round_trip [of ?b "[65535/65536]" "[65535/65536]" "\<lambda>x. 0"]
    by (simp add: pcm16_values decode_sample_def)
  have b: "\<not> \<bar>32766/32768 - 65535/65536\<bar> \<le> (1/32768 :: real)"
    by simp
  have c: "pcm16 (- (131071/4294967296)) = pcm16 (131074/4294967296)"
    by (simp add: pcm16_def clamp_unit_def scale_pcm_def ToInt16_def)
  have d: "2 * (1/32768) < 131074/4294967296 - (- (131071/4294967296) :: real)"
    by simp
  from a b c d show ?thesis by (intro conjI)
qed

text \<open>
  Claim C4, amended. The 16-bit PCM encoder maps each sample \<open>s\<close> to
  \<open>clamp s (-1) 1\<close> scaled by 32768 when the clamped value is negative and by 32767
  otherwise, truncated towards zero, and \<^verbatim>\<open>floatTo16BitPCM\<close> writes these values in
  order, two bytes each. For a stereo buffer whose samples lie in \<open>[-1, 1]\<close> and whose
  data is shorter than \<open>2 ^ 32\<close> bytes, encoding to the container and decoding it back
  gives, per channel, as many samples as the buffer has, each less than \<open>2/32768\<close>
  away from the original, and less than \<open>1/32768\<close> away when the original is negative.
\<close>

theorem pcm_round_trip:
  assumes "channelData buffer = [L, R]" and "length L = length R"
    and "4 * length L < 4294967296"
    and "\<forall>s\<in>set L \<union> set R. - 1 \<le> s \<and> s \<le> 1"
  shows "sint (pcm16 s) = (if s < 0 then \<lceil>max (-1) s * 32768\<rceil> else \<lfloor>min 1 s * 32767\<rfloor>) \<and>
     (off + 2 * length input \<le> length view \<longrightarrow>
        floatTo16BitPCM view off (map Num input) =
          Some (take off view @ concat (map bytes16 (map pcm16 input)) @
                drop (off + 2 * length input) view)) \<and>
     (\<exists>blob L' R'.
        audioBufferToWav float32 buffer False = Some blob \<and>
        decodeWAV (bytes blob) = Some [L', R'] \<and>
        length L' = length L \<and> length R' = length R \<and>
        (\<forall>i<length L.
           \<bar>L' ! i - L ! i\<bar> < 2 / 32768 \<and> \<bar>R' ! i - R ! i\<bar> < 2 / 32768 \<and>
           (L ! i < 0 \<longrightarrow> \<bar>L' ! i - L ! i\<bar> < 1 / 32768) \<and>
           (R ! i < 0 \<longrightarrow> \<bar>R' ! i - R ! i\<bar> < 1 / 32768)))"
proof -
  let ?g = "\<lambda>s. decode_sample (pcm16 s)"
  from wav_round_trip [OF assms(1-3), of float32]
  obtain blob where blob: "audioBufferToWav float32 buffer False = Some blob"
    "decodeWAV (bytes blob) = Some [map ?g L, map ?g R]"
    by auto
  have e: "\<bar>map ?g L ! i - L ! i\<bar> < 2 / 32768 \<and> \<bar>map ?g R ! i - R ! i\<bar> < 2 / 32768 \<and>
           (L ! i < 0 \<longrightarrow> \<bar>map ?g L ! i - L ! i\<bar> < 1 / 32768) \<and>
           (R ! i < 0 \<longrightarrow> \<bar>map ?g R ! i - R ! i\<bar> < 1 / 32768)"
    if i: "i < length L" for i
  proof -
    from i assms(2) have "L ! i \<in> set L" "R ! i \<in> set R" by simp_all
    with assms(4) have b: "- 1 \<le> L ! i" "L ! i \<le> 1" "- 1 \<le> R ! i" "R ! i \<le> 1"
      by auto
    from decode_error [OF b(1,2)] decode_error [OF b(3,4)] i assms(2)
    show ?thesis by simp
  qed
  have "\<exists>blob L' R'.
        audioBufferToWav float32 buffer False = Some blob \<and>
        decodeWAV (bytes blob) = Some [L', R'] \<and>
        length L' = length L \<and> length R' = length R \<and>
        (\<forall>i<length L.
           \<bar>L' ! i - L ! i\<bar> < 2 / 32768 \<and> \<bar>R' ! i - R ! i\<bar> < 2 / 32768 \<and>
           (L ! i < 0 \<longrightarrow> \<bar>L' ! i - L ! i\<bar> < 1 / 32768) \<and>
           (R ! i < 0 \<longrightarrow> \<bar>R' ! i - R ! i\<bar> < 1 / 32768))"
    using blob e
    by (intro exI [of _ blob] exI [of _ "map ?g L"] exI [of _ "map ?g R"]) simp
  then show ?thesis
    using sint_pcm16 [of s] floatTo16BitPCM_pcm16 [of off input view] by blast
qed

theorem pcm_round_trip_witness:
  "sint (pcm16 (- (1/2))) = -16384 \<and>
   floatTo16BitPCM [0, 0, 0, 0, 0] 1 [Num (1/2), Num (- 2)] = Some [0, 0xFF, 0x3F, 0, 0x80] \<and>
   (\<exists>blob L' R'.
      audioBufferToWav (\<lambda>x. 0)
        \<lparr>buffer_sampleRate = 44100, channelData = [[1/2, 1], [- (1/2), 0]]\<rparr> False = Some blob \<and>
      decodeWAV (bytes blob) = Some [L', R'] \<and> length L' = 2 \<and> length R' = 2 \<and>
      \<bar>L' ! 0 - 1/2\<bar> < 2 / 32768 \<and> \<bar>L' ! 1 - 1\<bar> < 2 / 32768 \<and>
      \<bar>R' ! 0 - (- (1/2))\<bar> < 1 / 32768 \<and> \<bar>R' ! 1 - 0\<bar> < 2 / 32768)"
proof -
  let ?b = "\<lparr>buffer_sampleRate = 44100, channelData = [[1/2, 1], [- (1/2), 0 :: real]]\<rparr>"
  let ?L = "[1/2, 1 :: real]"
  let ?R = "[- (1/2), 0 :: real]"
  have h: "channelData ?b = [?L, ?R]" "length ?L = length ?R" "4 * length ?L < 4294967296"
    "\<forall>s\<in>set ?L \<union> set ?R. - 1 \<le> s \<and> s \<le> 1"
    by simp_all
  note t = pcm_round_trip [OF h, of "- (1/2)" 1 "[1/2, - 2]" "[0, 0, 0, 0, 0]" "\<lambda>x. 0"]
  have d: "bytes16 16383 = [0xFF, 0x3F]" "bytes16 (-32768) = [0, 0x80]"
    by (simp_all add: bytes16_def drop_bit_eq_div)
  from t have p1: "sint (pcm16 (- (1/2))) = -16384"
    by simp
  from t have "floatTo16BitPCM [0, 0, 0, 0, 0] 1 (map Num [1/2, - 2]) =
      Some (take 1 [0, 0, 0, 0, 0] @ concat (map bytes16 (map pcm16 [1/2, - 2])) @
            drop (1 + 2 * length [1/2, - 2 :: real]) [0, 0, 0, 0, 0])"
    by simp
  then have p2: "floatTo16BitPCM [0, 0, 0, 0, 0] 1 [Num (1/2), Num (- 2)] =
      Some [0, 0xFF, 0x3F, 0, 0x80]"
    by (simp add: pcm16_values d)
  from t obtain blob L' R' where
    r: "audioBufferToWav (\<lambda>x. 0) ?b False = Some blob"
       "decodeWAV (bytes blob) = Some [L', R']" "length L' = length ?L" "length R' = length ?R"
       "\<forall>i<length ?L.
           \<bar>L' ! i - ?L ! i\<bar> < 2 / 32768 \<and> \<bar>R' ! i - ?R ! i\<bar> < 2 / 32768 \<and>
           (?L ! i < 0 \<longrightarrow> \<bar>L' ! i - ?L ! i\<bar> < 1 / 32768) \<and>
           (?R ! i < 0 \<longrightarrow> \<bar>R' ! i - ?R ! i\<bar> < 1 / 32768)"
    by blast
  have i0: "0 < length ?L" and i1: "1 < length ?L" by simp_all
  from r(5) i0 have e0: "\<bar>L' ! 0 - 1/2\<bar> < 2 / 32768" "\<bar>R' ! 0 - (- (1/2))\<bar> < 1 / 32768"
    by (auto simp del: length_Cons)
  from r(5) i1 have e1: "\<bar>L' ! 1 - 1\<bar> < 2 / 32768" "\<bar>R' ! 1 - 0\<bar> < 2 / 32768"
    by (auto simp del: length_Cons)
  from r(3,4) have l: "length L' = 2" "length R' = 2" by simp_all
  from p1 p2 r(1,2) l e0 e1 show ?thesis by blast
qed

text \<open>
  Claim C6 fails in "symmetric rounding". The worker uses the conversion of the lossless
  path: the sample \<open>1/4\<close> becomes 8191, although the scaled value 8191.75 rounds to
  8192, and \<open>-1/4\<close> becomes -8192, which is not the mirror image of 8191.
\<close>

theorem mp3_conversion_counterexample:
  "map sint (fst (worker_convert [1/4, -1/4] (Some [1/4, -1/4]))) = [8191, -8192] \<and>
   round (32767 * (1/4) :: real) = 8192 \<and>
   sint (pcm16 (- (1/4))) \<noteq> - sint (pcm16 (1/4))"
  by (simp add: worker_convert_fst pcm16_values round_def)

text \<open>
  Claim C6, amended. The lossy path converts each channel's samples to 16-bit signed
  integers by clamping to \<open>[-1, 1]\<close>, scaling negative values by 32768 and the others by
  32767, and truncating towards zero, the left and the right channel each from its own
  samples. For a mono buffer the message to the worker carries the left channel twice,
  so both encoder inputs hold the same values.
\<close>

theorem mp3_conversion:
  "fst (worker_convert samplesL samplesR) = map pcm16 samplesL \<and>
   snd (worker_convert samplesL None) = map pcm16 samplesL \<and>
   (length sR = length samplesL \<longrightarrow>
      snd (worker_convert samplesL (Some sR)) = map pcm16 sR) \<and>
   sint (pcm16 s) = (if s < 0 then \<lceil>max (-1) s * 32768\<rceil> else \<lfloor>min 1 s * 32767\<rfloor>) \<and>
   (1 < numberOfChannels buffer \<longrightarrow>
      mp3_message buffer =
        (numberOfChannels buffer, buffer_sampleRate buffer, getChannelData buffer 0,
         getChannelData buffer 1)) \<and>
   (numberOfChannels buffer \<le> 1 \<longrightarrow>
      mp3_message buffer =
        (numberOfChannels buffer, buffer_sampleRate buffer, getChannelData buffer 0,
         getChannelData buffer 0) \<and>
      worker_convert (getChannelData buffer 0) (Some (getChannelData buffer 0)) =
        (map pcm16 (getChannelData buffer 0), map pcm16 (getChannelData buffer 0)))"
proof -
  have "worker_convert xs (Some xs) = (map pcm16 xs, map pcm16 xs)" for xs
    using worker_convert_fst [of xs "Some xs"] worker_convert_snd_Some [of xs xs]
    by (simp add: prod_eq_iff)
  then show ?thesis
    using worker_convert_fst worker_convert_snd_None worker_convert_snd_Some sint_pcm16
      mp3_message_mono mp3_message_stereo
    by simp
qed

theorem mp3_conversion_witness:
  "map sint (fst (worker_convert [1/2, -2] (Some [-1/2, 1]))) = [16383, -32768] \<and>
   map sint (snd (worker_convert [1/2, -2] (Some [-1/2, 1]))) = [-16384, 32767] \<and>
   mp3_message \<lparr>buffer_sampleRate = 44100, channelData = [[1/2, -2]]\<rparr> =
     (1, 44100, [1/2, -2], [1/2, -2]) \<and>
   worker_convert [1/2, -2] (Some [1/2, -2]) = ([16383, -32768], [16383, -32768])"
proof -
  let ?b = "\<lparr>buffer_sampleRate = 44100, channelData = [[1/2, -2 :: real]]\<rparr>"
  have n: "numberOfChannels ?b = 1" "getChannelData ?b 0 = [1/2, -2]"
    by (simp_all add: numberOfChannels_def getChannelData_def)
  show ?thesis
    using mp3_conversion [of "[1/2, -2]" "Some [-1/2, 1]" "[-1/2, 1]" 0 ?b]
    by (simp add: n pcm16_values)
qed

end
